theory Spec2Isabelle
  imports Main "HOL-Library.Word"
begin

section \<open>The alternate-p2m view table of xen/arch/arm/altp2m.c\<close>

text \<open>
  The file manages, for one guest (\<open>struct domain\<close>), a table of pointers to alternate
  translation views (\<open>struct p2m_domain\<close>), the index each virtual CPU is bound to, and the
  counter of bound virtual CPUs every view carries. The embedding keeps the pointers: a
  table slot holds an address or NULL, the views live in a heap from addresses to objects,
  and reading or writing through NULL or through a pointer to released memory is a fault
  of the model, as is a failed \<open>BUG_ON\<close> or \<open>ASSERT\<close> (the checks are modelled as a debug
  build performs them). Locks and the pausing of virtual CPUs order concurrent contexts and
  leave the modelled fields alone; they are not part of this sequential embedding.
\<close>

subsection \<open>Data\<close>

type_synonym addr = nat

datatype p2m_class_t = p2m_host | p2m_alternate

text \<open>
  Modelled from the spec: the internal state of a View Object belongs to asm/p2m.h and
  arch/arm/p2m.c, which are not part of the sources at hand. Of that state the model keeps
  one tag: whether the object is as \<open>xzalloc\<close> left it, was set up by \<open>p2m_init_one\<close>, or was
  emptied by \<open>p2m_teardown_one\<close>.
\<close>

datatype p2m_life = Zeroed | Initialized | Torn_down

record p2m_domain =
  active_vcpus :: "32 word"
  p2m_class :: p2m_class_t
  p2m_life :: p2m_life

text \<open>
  Slot indices are unsigned; the file compares them and subscripts the table with them, and
  does no arithmetic on them: they are natural numbers here. The counter of a view is an
  \<open>atomic_t\<close>, a 32-bit \<open>int\<close> that wraps around.
\<close>

record arch_vcpu =
  ap2m_idx :: nat

text \<open>
  The calls that create, release or publish a view are recorded, in program order, in a
  trace: the order of a tear-down, a release and a table write cannot be read off the
  state they leave behind.
\<close>

datatype event =
    Ev_xzalloc "addr option"
  | Ev_p2m_init_one addr int
  | Ev_p2m_teardown_one addr
  | Ev_xfree addr
  | Ev_slot_write nat "addr option"

record state =
  altp2m_p2m :: "addr option list"
  altp2m_active :: bool
  vcpu :: "arch_vcpu list"
  xenheap :: "addr \<Rightarrow> p2m_domain option"
  trace :: "event list"

text \<open>
  \<open>MAX_ALTP2M\<close> and \<open>INVALID_ALTP2M\<close> are macros of asm/altp2m.h, which is not among the
  sources; the functions take them as a parameter. The table is declared with
  \<open>MAX_ALTP2M\<close> entries, which \<open>table_ok\<close> states.
\<close>

record config =
  MAX_ALTP2M :: nat
  INVALID_ALTP2M :: nat

definition table_ok :: "config \<Rightarrow> state \<Rightarrow> bool" where
  "table_ok c s = (length (altp2m_p2m s) = MAX_ALTP2M c)"

text \<open>The errno values of xen/include/public/errno.h.\<close>

definition ENOENT :: int where "ENOENT = 2"
definition ENOMEM :: int where "ENOMEM = 12"
definition EBUSY :: int where "EBUSY = 16"
definition EINVAL :: int where "EINVAL = 22"

datatype fault = Null_deref | Bad_pointer | Bug | Assert_failed

definition bind :: "fault + 'a \<Rightarrow> ('a \<Rightarrow> fault + 'b) \<Rightarrow> fault + 'b" where
  "bind m f = (case m of Inl e \<Rightarrow> Inl e | Inr x \<Rightarrow> f x)"

subsection \<open>Memory and the view object's operations\<close>

text \<open>The three atomic accesses to \<open>p->active_vcpus\<close>, through a pointer \<open>p\<close>.\<close>

definition atomic_read :: "addr option \<Rightarrow> (addr \<Rightarrow> p2m_domain option) \<Rightarrow> fault + 32 word" where
  "atomic_read p h =
     (case p of None \<Rightarrow> Inl Null_deref
      | Some a \<Rightarrow> (case h a of None \<Rightarrow> Inl Bad_pointer | Some m \<Rightarrow> Inr (active_vcpus m)))"

definition atomic_inc ::
  "addr option \<Rightarrow> (addr \<Rightarrow> p2m_domain option) \<Rightarrow> fault + (addr \<Rightarrow> p2m_domain option)" where
  "atomic_inc p h =
     (case p of None \<Rightarrow> Inl Null_deref
      | Some a \<Rightarrow> (case h a of None \<Rightarrow> Inl Bad_pointer
          | Some m \<Rightarrow> Inr (h(a \<mapsto> m\<lparr>active_vcpus := active_vcpus m + 1\<rparr>))))"

definition atomic_dec ::
  "addr option \<Rightarrow> (addr \<Rightarrow> p2m_domain option) \<Rightarrow> fault + (addr \<Rightarrow> p2m_domain option)" where
  "atomic_dec p h =
     (case p of None \<Rightarrow> Inl Null_deref
      | Some a \<Rightarrow> (case h a of None \<Rightarrow> Inl Bad_pointer
          | Some m \<Rightarrow> Inr (h(a \<mapsto> m\<lparr>active_vcpus := active_vcpus m - 1\<rparr>))))"

text \<open>
  Modelled from the spec: \<open>xzalloc\<close>, \<open>xfree\<close>, \<open>p2m_init_one\<close> and \<open>p2m_teardown_one\<close> are
  the View Object collaborator's create-zeroed, free, initialize and teardown; their code is
  not among the sources. Whether an allocation succeeds and what the initializer returns is
  the environment's choice, passed in as \<open>ext\<close>.
\<close>

record ext =
  xzalloc_ret :: "addr option"
  p2m_init_one_ret :: int

definition xzalloc :: "ext \<Rightarrow> state \<Rightarrow> addr option \<times> state" where
  "xzalloc e s =
     (case xzalloc_ret e of
        None \<Rightarrow> (None, s\<lparr>trace := trace s @ [Ev_xzalloc None]\<rparr>)
      | Some a \<Rightarrow>
          (Some a,
           s\<lparr>xenheap := (xenheap s)(a \<mapsto>
                \<lparr>active_vcpus = 0, p2m_class = p2m_host, p2m_life = Zeroed\<rparr>),
             trace := trace s @ [Ev_xzalloc (Some a)]\<rparr>))"

definition p2m_init_one :: "ext \<Rightarrow> addr \<Rightarrow> state \<Rightarrow> fault + (int \<times> state)" where
  "p2m_init_one e a s =
     (case xenheap s a of
        None \<Rightarrow> Inl Bad_pointer
      | Some m \<Rightarrow>
          Inr (p2m_init_one_ret e,
               s\<lparr>xenheap := (xenheap s)(a \<mapsto>
                    (if p2m_init_one_ret e = 0 then m\<lparr>p2m_life := Initialized\<rparr> else m)),
                 trace := trace s @ [Ev_p2m_init_one a (p2m_init_one_ret e)]\<rparr>))"

definition p2m_teardown_one :: "addr \<Rightarrow> state \<Rightarrow> fault + state" where
  "p2m_teardown_one a s =
     (case xenheap s a of
        None \<Rightarrow> Inl Bad_pointer
      | Some m \<Rightarrow>
          Inr (s\<lparr>xenheap := (xenheap s)(a \<mapsto> m\<lparr>p2m_life := Torn_down\<rparr>),
                 trace := trace s @ [Ev_p2m_teardown_one a]\<rparr>))"

definition xfree :: "addr \<Rightarrow> state \<Rightarrow> fault + state" where
  "xfree a s =
     (case xenheap s a of
        None \<Rightarrow> Inl Bad_pointer
      | Some m \<Rightarrow>
          Inr (s\<lparr>xenheap := (xenheap s)(a := None), trace := trace s @ [Ev_xfree a]\<rparr>))"

text \<open>The assignment \<open>d->arch.altp2m_p2m[idx] = p\<close>.\<close>

definition slot_write :: "nat \<Rightarrow> addr option \<Rightarrow> state \<Rightarrow> state" where
  "slot_write idx p s =
     s\<lparr>altp2m_p2m := (altp2m_p2m s)[idx := p], trace := trace s @ [Ev_slot_write idx p]\<rparr>"

subsection \<open>The functions of altp2m.c\<close>

definition altp2m_get_altp2m ::
  "config \<Rightarrow> addr option list \<Rightarrow> arch_vcpu \<Rightarrow> fault + addr option" where
  "altp2m_get_altp2m c tbl v =
     (let idx = ap2m_idx v in
      if idx = INVALID_ALTP2M c then Inr None
      else if idx \<ge> MAX_ALTP2M c then Inl Bug
      else Inr (tbl ! idx))"

text \<open>
  The body of \<open>for_each_vcpu\<close> in \<open>altp2m_switch_domain_altp2m_by_id\<close>, run over the
  guest's virtual CPUs in order; the table does not change in the loop.
\<close>

fun switch_vcpus ::
  "config \<Rightarrow> addr option list \<Rightarrow> nat \<Rightarrow> arch_vcpu list \<Rightarrow> (addr \<Rightarrow> p2m_domain option)
   \<Rightarrow> fault + (arch_vcpu list \<times> (addr \<Rightarrow> p2m_domain option))" where
  "switch_vcpus c tbl idx [] h = Inr ([], h)"
| "switch_vcpus c tbl idx (v # vs) h =
     (if idx = ap2m_idx v then
        bind (switch_vcpus c tbl idx vs h) (\<lambda>(vs', h'). Inr (v # vs', h'))
      else
        bind (altp2m_get_altp2m c tbl v) (\<lambda>p.
        bind (atomic_dec p h) (\<lambda>h1.
        let v' = v\<lparr>ap2m_idx := idx\<rparr> in
        bind (altp2m_get_altp2m c tbl v') (\<lambda>q.
        bind (atomic_inc q h1) (\<lambda>h2.
        bind (switch_vcpus c tbl idx vs h2) (\<lambda>(vs', h'). Inr (v' # vs', h')))))))"

definition altp2m_switch_domain_altp2m_by_id ::
  "config \<Rightarrow> state \<Rightarrow> nat \<Rightarrow> fault + (int \<times> state)" where
  "altp2m_switch_domain_altp2m_by_id c s idx =
     (if idx \<ge> MAX_ALTP2M c then Inr (- EINVAL, s)
      else if altp2m_p2m s ! idx \<noteq> None then
        bind (switch_vcpus c (altp2m_p2m s) idx (vcpu s) (xenheap s)) (\<lambda>(vs', h').
          Inr (0, s\<lparr>vcpu := vs', xenheap := h'\<rparr>))
      else Inr (- EINVAL, s))"

definition altp2m_vcpu_reset :: "config \<Rightarrow> arch_vcpu \<Rightarrow> arch_vcpu" where
  "altp2m_vcpu_reset c v = v\<lparr>ap2m_idx := INVALID_ALTP2M c\<rparr>"

text \<open>A virtual CPU is named by its position \<open>i\<close> in \<open>d->vcpu\<close>.\<close>

definition altp2m_vcpu_initialize :: "config \<Rightarrow> state \<Rightarrow> nat \<Rightarrow> fault + state" where
  "altp2m_vcpu_initialize c s i =
     (let v = (vcpu s ! i)\<lparr>ap2m_idx := 0\<rparr> in
      bind (altp2m_get_altp2m c (altp2m_p2m s) v) (\<lambda>p.
      bind (atomic_inc p (xenheap s)) (\<lambda>h.
      Inr (s\<lparr>vcpu := (vcpu s)[i := v], xenheap := h\<rparr>))))"

definition altp2m_vcpu_destroy :: "config \<Rightarrow> state \<Rightarrow> nat \<Rightarrow> fault + state" where
  "altp2m_vcpu_destroy c s i =
     (let v = vcpu s ! i in
      bind (altp2m_get_altp2m c (altp2m_p2m s) v) (\<lambda>p2m.
      bind (if p2m \<noteq> None then atomic_dec p2m (xenheap s) else Inr (xenheap s)) (\<lambda>h.
      Inr (s\<lparr>vcpu := (vcpu s)[i := altp2m_vcpu_reset c v], xenheap := h\<rparr>))))"

text \<open>The write \<open>p2m->p2m_class = cls\<close> through a pointer.\<close>

definition store_p2m_class :: "addr \<Rightarrow> p2m_class_t \<Rightarrow> state \<Rightarrow> fault + state" where
  "store_p2m_class a cls s =
     (case xenheap s a of
        None \<Rightarrow> Inl Bad_pointer
      | Some m \<Rightarrow> Inr (s\<lparr>xenheap := (xenheap s)(a \<mapsto> m\<lparr>p2m_class := cls\<rparr>)\<rparr>))"

definition altp2m_init_helper :: "ext \<Rightarrow> state \<Rightarrow> nat \<Rightarrow> fault + (int \<times> state)" where
  "altp2m_init_helper e s idx =
     (if altp2m_p2m s ! idx \<noteq> None then Inl Assert_failed
      else
        (case xzalloc e s of
           (None, s1) \<Rightarrow> Inr (- ENOMEM, s1)
         | (Some p2m, s1) \<Rightarrow>
             bind (store_p2m_class p2m p2m_alternate s1) (\<lambda>s2.
             bind (p2m_init_one e p2m s2) (\<lambda>(rc, s3).
             if rc \<noteq> 0 then
               bind (xfree p2m s3) (\<lambda>s4. Inr (rc, slot_write idx None s4))
             else Inr (rc, slot_write idx (Some p2m) s3)))))"

definition altp2m_init_by_id :: "config \<Rightarrow> ext \<Rightarrow> state \<Rightarrow> nat \<Rightarrow> fault + (int \<times> state)" where
  "altp2m_init_by_id c e s idx =
     (if idx \<ge> MAX_ALTP2M c then Inr (- EINVAL, s)
      else if altp2m_p2m s ! idx = None then altp2m_init_helper e s idx
      else Inr (- EINVAL, s))"

text \<open>
  The loop of \<open>altp2m_init_next_available\<close>. Its counter \<open>i\<close> is a \<open>uint16_t\<close>, so \<open>i++\<close>
  wraps at \<open>2 ^ 16\<close>, and the loop need not end when \<open>MAX_ALTP2M\<close> exceeds what the
  counter can hold: not returning is the value \<open>None\<close>. The second component of a result
  is what the call wrote to \<open>*idx\<close>, \<open>None\<close> when it wrote nothing.
\<close>

partial_function (option) init_next_loop ::
  "config \<Rightarrow> ext \<Rightarrow> state \<Rightarrow> 16 word \<Rightarrow> (fault + (int \<times> 16 word option \<times> state)) option" where
  "init_next_loop c e s i =
     (if unat i < MAX_ALTP2M c then
        (if altp2m_p2m s ! unat i \<noteq> None then init_next_loop c e s (i + 1)
         else Some (bind (altp2m_init_helper e s (unat i)) (\<lambda>(rc, s'). Inr (rc, Some i, s'))))
      else Some (Inr (- EINVAL, None, s)))"

definition altp2m_init_next_available ::
  "config \<Rightarrow> ext \<Rightarrow> state \<Rightarrow> (fault + (int \<times> 16 word option \<times> state)) option" where
  "altp2m_init_next_available c e s = init_next_loop c e s 0"

definition altp2m_init :: "state \<Rightarrow> int \<times> state" where
  "altp2m_init s = (0, s\<lparr>altp2m_active := False\<rparr>)"

text \<open>
  The loop of \<open>altp2m_flush\<close>, over the indices \<open>i = 0, ..., MAX_ALTP2M - 1\<close> in order.
\<close>

fun flush_slots :: "nat list \<Rightarrow> state \<Rightarrow> fault + state" where
  "flush_slots [] s = Inr s"
| "flush_slots (i # js) s =
     (case altp2m_p2m s ! i of
        None \<Rightarrow> flush_slots js s
      | Some p2m \<Rightarrow>
          bind (atomic_read (Some p2m) (xenheap s)) (\<lambda>n.
          if n \<noteq> 0 then Inl Assert_failed
          else
            bind (p2m_teardown_one p2m s) (\<lambda>s1.
            bind (xfree p2m s1) (\<lambda>s2.
            flush_slots js (slot_write i None s2)))))"

definition altp2m_flush :: "config \<Rightarrow> state \<Rightarrow> fault + state" where
  "altp2m_flush c s =
     (if altp2m_active s then Inl Assert_failed
      else flush_slots [0..<MAX_ALTP2M c] s)"

definition altp2m_destroy_by_id :: "config \<Rightarrow> state \<Rightarrow> nat \<Rightarrow> fault + (int \<times> state)" where
  "altp2m_destroy_by_id c s idx =
     (if idx = 0 \<or> idx \<ge> MAX_ALTP2M c then Inr (- EBUSY, s)
      else
        (case altp2m_p2m s ! idx of
           None \<Rightarrow> Inr (- EBUSY, s)
         | Some p2m \<Rightarrow>
             bind (atomic_read (Some p2m) (xenheap s)) (\<lambda>n.
             if n = 0 then
               bind (p2m_teardown_one p2m s) (\<lambda>s1.
               bind (xfree p2m s1) (\<lambda>s2.
               Inr (0, slot_write idx None s2)))
             else Inr (- EBUSY, s))))"

text \<open>The loop of \<open>altp2m_teardown\<close>; it writes no table entry.\<close>

fun teardown_slots :: "nat list \<Rightarrow> state \<Rightarrow> fault + state" where
  "teardown_slots [] s = Inr s"
| "teardown_slots (i # js) s =
     (case altp2m_p2m s ! i of
        None \<Rightarrow> teardown_slots js s
      | Some p2m \<Rightarrow>
          bind (p2m_teardown_one p2m s) (\<lambda>s1.
          bind (xfree p2m s1) (\<lambda>s2.
          teardown_slots js s2)))"

definition altp2m_teardown :: "config \<Rightarrow> state \<Rightarrow> fault + state" where
  "altp2m_teardown c s = teardown_slots [0..<MAX_ALTP2M c] s"

subsection \<open>The invariants the properties speak of\<close>

text \<open>The number of virtual CPUs whose \<open>ap2m_idx\<close> is \<open>i\<close>.\<close>

definition bound_to :: "state \<Rightarrow> nat \<Rightarrow> nat" where
  "bound_to s i = length (filter (\<lambda>v. ap2m_idx v = i) (vcpu s))"

text \<open>
  Invariant I2 of the specification: every occupied slot points to a view whose counter,
  read as the signed \<open>int\<close> it is, is the number of virtual CPUs bound to that slot.
\<close>

definition I2 :: "config \<Rightarrow> state \<Rightarrow> bool" where
  "I2 c s =
     (\<forall>i<MAX_ALTP2M c.
        case altp2m_p2m s ! i of
          None \<Rightarrow> True
        | Some a \<Rightarrow>
            (case xenheap s a of
               None \<Rightarrow> False
             | Some m \<Rightarrow> sint (active_vcpus m) = int (bound_to s i)))"

text \<open>
  Every view is owned by one slot: no two slots hold the same pointer. The file writes to
  a slot only a pointer it just got from \<open>xzalloc\<close>, or NULL.
\<close>

definition slots_distinct :: "config \<Rightarrow> state \<Rightarrow> bool" where
  "slots_distinct c s =
     (\<forall>i<MAX_ALTP2M c. \<forall>j<MAX_ALTP2M c.
        altp2m_p2m s ! i \<noteq> None \<and> altp2m_p2m s ! i = altp2m_p2m s ! j \<longrightarrow> i = j)"

text \<open>
  Invariant I1 of the specification: the index of every virtual CPU is the sentinel or names
  a slot.
\<close>

definition I1 :: "config \<Rightarrow> state \<Rightarrow> bool" where
  "I1 c s = (\<forall>v\<in>set (vcpu s). ap2m_idx v = INVALID_ALTP2M c \<or> ap2m_idx v < MAX_ALTP2M c)"

text \<open>No slot holds a pointer to released memory.\<close>

definition slots_live :: "config \<Rightarrow> state \<Rightarrow> bool" where
  "slots_live c s =
     (\<forall>i<MAX_ALTP2M c.
        case altp2m_p2m s ! i of None \<Rightarrow> True | Some a \<Rightarrow> xenheap s a \<noteq> None)"

text \<open>
  No occupied slot refers to a view that was torn down or released: each points to an
  object of the heap whose internal state is not torn down.
\<close>

definition slots_sound :: "config \<Rightarrow> state \<Rightarrow> bool" where
  "slots_sound c s =
     (\<forall>i<MAX_ALTP2M c.
        case altp2m_p2m s ! i of
          None \<Rightarrow> True
        | Some a \<Rightarrow>
            (case xenheap s a of None \<Rightarrow> False | Some m \<Rightarrow> p2m_life m \<noteq> Torn_down))"

subsection \<open>A guest to run the functions on\<close>

text \<open>
  The guest of the specification's scenario: a table of four slots, two virtual CPUs, both
  bound to slot 0, and views in slots 0 and 1.
\<close>

definition cfg4 :: config where
  "cfg4 = \<lparr>MAX_ALTP2M = 4, INVALID_ALTP2M = 65535\<rparr>"

definition view :: "32 word \<Rightarrow> p2m_domain" where
  "view n = \<lparr>active_vcpus = n, p2m_class = p2m_alternate, p2m_life = Initialized\<rparr>"

definition st_two_views :: state where
  "st_two_views =
     \<lparr>altp2m_p2m = [Some 100, Some 101, None, None],
      altp2m_active = True,
      vcpu = [\<lparr>ap2m_idx = 0\<rparr>, \<lparr>ap2m_idx = 0\<rparr>],
      xenheap = [100 \<mapsto> view 2, 101 \<mapsto> view 0],
      trace = []\<rparr>"

text \<open>The same guest after its virtual CPUs were switched to slot 1.\<close>

definition st_switched :: state where
  "st_switched =
     \<lparr>altp2m_p2m = [Some 100, Some 101, None, None],
      altp2m_active = True,
      vcpu = [\<lparr>ap2m_idx = 1\<rparr>, \<lparr>ap2m_idx = 1\<rparr>],
      xenheap = [100 \<mapsto> view 0, 101 \<mapsto> view 2],
      trace = []\<rparr>"

text \<open>The first guest after \<open>altp2m_vcpu_destroy\<close> on its virtual CPU 0.\<close>

definition st_one_unbound :: state where
  "st_one_unbound =
     \<lparr>altp2m_p2m = [Some 100, Some 101, None, None],
      altp2m_active = True,
      vcpu = [\<lparr>ap2m_idx = 65535\<rparr>, \<lparr>ap2m_idx = 0\<rparr>],
      xenheap = [100 \<mapsto> view 1, 101 \<mapsto> view 0],
      trace = []\<rparr>"

text \<open>Two answers of the environment: no memory, and an initializer that fails.\<close>

definition ext_no_memory :: ext where
  "ext_no_memory = \<lparr>xzalloc_ret = None, p2m_init_one_ret = 0\<rparr>"

definition ext_init_fails :: ext where
  "ext_init_fails = \<lparr>xzalloc_ret = Some 102, p2m_init_one_ret = - 16\<rparr>"

text \<open>An environment in which allocation and initialization succeed.\<close>

definition ext_ok :: ext where
  "ext_ok = \<lparr>xzalloc_ret = Some 102, p2m_init_one_ret = 0\<rparr>"

text \<open>A guest whose four slots are all occupied.\<close>

definition st_full_table :: state where
  "st_full_table =
     \<lparr>altp2m_p2m = [Some 100, Some 101, Some 104, Some 105],
      altp2m_active = True,
      vcpu = [\<lparr>ap2m_idx = 0\<rparr>, \<lparr>ap2m_idx = 0\<rparr>],
      xenheap = [100 \<mapsto> view 2, 101 \<mapsto> view 0, 104 \<mapsto> view 0, 105 \<mapsto> view 0],
      trace = []\<rparr>"

text \<open>A guest whose alternate views are switched off: no virtual CPU is bound.\<close>

definition st_inactive :: state where
  "st_inactive =
     \<lparr>altp2m_p2m = [Some 100, Some 101, None, None],
      altp2m_active = False,
      vcpu = [\<lparr>ap2m_idx = 65535\<rparr>, \<lparr>ap2m_idx = 65535\<rparr>],
      xenheap = [100 \<mapsto> view 0, 101 \<mapsto> view 0],
      trace = []\<rparr>"

text \<open>The first guest after slot 1 was destroyed, after a tear-down of all its views, and
  the inactive guest after a flush.\<close>

definition st_destroyed :: state where
  "st_destroyed =
     \<lparr>altp2m_p2m = [Some 100, None, None, None],
      altp2m_active = True,
      vcpu = [\<lparr>ap2m_idx = 0\<rparr>, \<lparr>ap2m_idx = 0\<rparr>],
      xenheap = [100 \<mapsto> view 2],
      trace = [Ev_p2m_teardown_one 101, Ev_xfree 101, Ev_slot_write 1 None]\<rparr>"

text \<open>
  The first guest inside \<open>altp2m_destroy_by_id\<close> on slot 1, after the release and before
  the slot is written.
\<close>

definition st_released :: state where
  "st_released =
     \<lparr>altp2m_p2m = [Some 100, Some 101, None, None],
      altp2m_active = True,
      vcpu = [\<lparr>ap2m_idx = 0\<rparr>, \<lparr>ap2m_idx = 0\<rparr>],
      xenheap = [100 \<mapsto> view 2],
      trace = [Ev_p2m_teardown_one 101, Ev_xfree 101]\<rparr>"

definition st_torn_down :: state where
  "st_torn_down =
     \<lparr>altp2m_p2m = [Some 100, Some 101, None, None],
      altp2m_active = True,
      vcpu = [\<lparr>ap2m_idx = 0\<rparr>, \<lparr>ap2m_idx = 0\<rparr>],
      xenheap = Map.empty,
      trace = [Ev_p2m_teardown_one 100, Ev_xfree 100, Ev_p2m_teardown_one 101, Ev_xfree 101]\<rparr>"

definition st_flushed :: state where
  "st_flushed =
     \<lparr>altp2m_p2m = [None, None, None, None],
      altp2m_active = False,
      vcpu = [\<lparr>ap2m_idx = 65535\<rparr>, \<lparr>ap2m_idx = 65535\<rparr>],
      xenheap = Map.empty,
      trace = [Ev_p2m_teardown_one 100, Ev_xfree 100, Ev_slot_write 0 None,
               Ev_p2m_teardown_one 101, Ev_xfree 101, Ev_slot_write 1 None]\<rparr>"

section \<open>Properties\<close>

subsection \<open>Sequencing\<close>

lemma bind_Inl [simp]: "bind (Inl e) f = Inl e"
  by (simp add: bind_def)

lemma bind_Inr [simp]: "bind (Inr x) f = f x"
  by (simp add: bind_def)

lemma bind_eq_Inr: "(bind m f = Inr y) = (\<exists>x. m = Inr x \<and> f x = Inr y)"
  by (cases m) simp_all

lemma all_less_4: "(\<forall>i<(4::nat). P i) = (P 0 \<and> P 1 \<and> P 2 \<and> P 3)"
proof -
  have "i < 4 \<longleftrightarrow> i = 0 \<or> i = 1 \<or> i = 2 \<or> i = 3" for i :: nat by arith
  then show ?thesis by auto
qed

subsection \<open>The rebinding loop\<close>

lemma switch_vcpus_map:
  "switch_vcpus c tbl k vs h = Inr (vs', h') \<Longrightarrow> vs' = map (\<lambda>v. v\<lparr>ap2m_idx := k\<rparr>) vs"
proof (induction vs arbitrary: h vs' h')
  case Nil
  then show ?case by simp
next
  case (Cons v vs)
  show ?case
  proof (cases "k = ap2m_idx v")
    case True
    with Cons.prems obtain ws where "switch_vcpus c tbl k vs h = Inr (ws, h')" "vs' = v # ws"
      by (auto simp: bind_eq_Inr)
    with Cons.IH True show ?thesis by simp
  next
    case False
    with Cons.prems obtain ws h2 where "switch_vcpus c tbl k vs h2 = Inr (ws, h')"
      "vs' = v\<lparr>ap2m_idx := k\<rparr> # ws"
      by (auto simp: bind_eq_Inr Let_def)
    with Cons.IH show ?thesis by simp
  qed
qed

lemma atomic_dec_Inr:
  "atomic_dec p h = Inr h1 \<Longrightarrow>
   \<exists>a m. p = Some a \<and> h a = Some m \<and> h1 = h(a \<mapsto> m\<lparr>active_vcpus := active_vcpus m - 1\<rparr>)"
  by (auto simp: atomic_dec_def split: option.splits)

lemma atomic_inc_Inr:
  "atomic_inc p h = Inr h1 \<Longrightarrow>
   \<exists>a m. p = Some a \<and> h a = Some m \<and> h1 = h(a \<mapsto> m\<lparr>active_vcpus := active_vcpus m + 1\<rparr>)"
  by (auto simp: atomic_inc_def split: option.splits)

lemma get_altp2m_target:
  "k < MAX_ALTP2M c \<Longrightarrow> altp2m_get_altp2m c tbl (v\<lparr>ap2m_idx := k\<rparr>) = Inr (Some a) \<Longrightarrow>
   tbl ! k = Some a"
  by (auto simp: altp2m_get_altp2m_def Let_def split: if_splits)

text \<open>What one pass of the loop body does to the heap.\<close>

lemma switch_step_heap:
  assumes "k < MAX_ALTP2M c" "tbl ! k = Some pk"
    and "altp2m_get_altp2m c tbl v = Inr p" "atomic_dec p h = Inr h1"
    and "altp2m_get_altp2m c tbl (v\<lparr>ap2m_idx := k\<rparr>) = Inr q" "atomic_inc q h1 = Inr h2"
  shows "\<exists>av. p = Some av \<and> h av \<noteq> None \<and> q = Some pk \<and>
     (\<forall>a. h2 a = map_option (\<lambda>m. m\<lparr>active_vcpus :=
        active_vcpus m + (if a = pk then 1 else 0) - (if a = av then 1 else 0)\<rparr>) (h a))"
proof -
  from assms(4) obtain av mv where p: "p = Some av" "h av = Some mv"
    and h1: "h1 = h(av \<mapsto> mv\<lparr>active_vcpus := active_vcpus mv - 1\<rparr>)"
    using atomic_dec_Inr by blast
  from assms(6) obtain aq mq where q: "q = Some aq" "h1 aq = Some mq"
    and h2: "h2 = h1(aq \<mapsto> mq\<lparr>active_vcpus := active_vcpus mq + 1\<rparr>)"
    using atomic_inc_Inr by blast
  from assms(1,2,5) q(1) have aq: "aq = pk"
    using get_altp2m_target by fastforce
  have "h2 a = map_option (\<lambda>m. m\<lparr>active_vcpus :=
        active_vcpus m + (if a = pk then 1 else 0) - (if a = av then 1 else 0)\<rparr>) (h a)" for a
    using p(2) q(2) by (cases "h a") (auto simp: h1 h2 aq split: if_splits)
  with p q aq show ?thesis by simp
qed

lemma switch_vcpus_heap:
  assumes "k < MAX_ALTP2M c" "tbl ! k = Some pk"
  shows "switch_vcpus c tbl k vs h = Inr (vs', h') \<Longrightarrow>
     (\<forall>v\<in>set vs. ap2m_idx v \<noteq> k \<longrightarrow> (\<exists>a. altp2m_get_altp2m c tbl v = Inr (Some a))) \<and>
     (\<forall>a. h' a = map_option (\<lambda>m. m\<lparr>active_vcpus := active_vcpus m
          + (if a = pk then of_nat (length (filter (\<lambda>v. ap2m_idx v \<noteq> k) vs)) else 0)
          - of_nat (length (filter (\<lambda>v. ap2m_idx v \<noteq> k \<and>
                altp2m_get_altp2m c tbl v = Inr (Some a)) vs))\<rparr>) (h a))"
proof (induction vs arbitrary: h vs' h')
  case Nil
  then show ?case by (simp add: option.map_ident)
next
  case (Cons v vs)
  show ?case
  proof (cases "k = ap2m_idx v")
    case True
    with Cons.prems obtain ws where "switch_vcpus c tbl k vs h = Inr (ws, h')"
      by (auto simp: bind_eq_Inr)
    from Cons.IH [OF this] True show ?thesis by simp
  next
    case False
    with Cons.prems obtain p h1 q h2 ws where
      st: "altp2m_get_altp2m c tbl v = Inr p" "atomic_dec p h = Inr h1"
        "altp2m_get_altp2m c tbl (v\<lparr>ap2m_idx := k\<rparr>) = Inr q" "atomic_inc q h1 = Inr h2"
      and rest: "switch_vcpus c tbl k vs h2 = Inr (ws, h')"
      by (auto simp: bind_eq_Inr Let_def)
    from switch_step_heap [OF assms st] obtain av where
      av: "p = Some av" and
      h2: "\<And>a. h2 a = map_option (\<lambda>m. m\<lparr>active_vcpus :=
        active_vcpus m + (if a = pk then 1 else 0) - (if a = av then 1 else 0)\<rparr>) (h a)"
      by blast
    note IH = Cons.IH [OF rest]
    have "h' a = map_option (\<lambda>m. m\<lparr>active_vcpus := active_vcpus m
          + (if a = pk then of_nat (length (filter (\<lambda>v. ap2m_idx v \<noteq> k) (v # vs))) else 0)
          - of_nat (length (filter (\<lambda>v. ap2m_idx v \<noteq> k \<and>
                altp2m_get_altp2m c tbl v = Inr (Some a)) (v # vs)))\<rparr>) (h a)" for a
      using IH False st(1) av by (cases "h a") (auto simp: h2)
    moreover have "\<forall>w\<in>set (v # vs). ap2m_idx w \<noteq> k \<longrightarrow>
        (\<exists>a. altp2m_get_altp2m c tbl w = Inr (Some a))"
      using IH st(1) av by auto
    ultimately show ?thesis by blast
  qed
qed


subsection \<open>The 32-bit counter\<close>

lemma sint_of_nat_small: "n < 2 ^ 31 \<Longrightarrow> sint (of_nat n :: 32 word) = int n"
proof -
  assume n: "n < 2 ^ 31"
  have "sint (word_of_int (int n) :: 32 word) = signed_take_bit (LENGTH(32) - 1) (int n)"
    by (rule sint_sbintrunc')
  then have "sint (of_nat n :: 32 word) = signed_take_bit 31 (int n)" by simp
  also have "\<dots> = int n"
  proof (rule signed_take_bit_int_eq_self)
    show "- (2 ^ 31) \<le> int n" by simp
    from n have "int n < int (2 ^ 31)" by (simp only: of_nat_less_iff)
    then show "int n < 2 ^ 31" by simp
  qed
  finally show ?thesis .
qed

lemma word_of_sint_nat: "sint (w :: 32 word) = int n \<Longrightarrow> w = of_nat n"
  by (metis of_int_sint of_int_of_nat_eq scast_id)

subsection \<open>A successful switch\<close>

lemma switch_success_unfold:
  assumes "altp2m_switch_domain_altp2m_by_id c s k = Inr (0, s')"
  shows "k < MAX_ALTP2M c \<and> (\<exists>pk. altp2m_p2m s ! k = Some pk) \<and>
    (\<exists>vs' h'. switch_vcpus c (altp2m_p2m s) k (vcpu s) (xenheap s) = Inr (vs', h') \<and>
       s' = s\<lparr>vcpu := vs', xenheap := h'\<rparr>)"
  using assms
  by (auto simp: altp2m_switch_domain_altp2m_by_id_def EINVAL_def bind_eq_Inr
      split: if_splits)

lemma get_altp2m_Some:
  "(altp2m_get_altp2m c tbl v = Inr (Some a)) =
   (ap2m_idx v \<noteq> INVALID_ALTP2M c \<and> ap2m_idx v < MAX_ALTP2M c \<and> tbl ! ap2m_idx v = Some a)"
  by (auto simp: altp2m_get_altp2m_def Let_def)

lemma slots_distinctD:
  "slots_distinct c s \<Longrightarrow> i < MAX_ALTP2M c \<Longrightarrow> j < MAX_ALTP2M c \<Longrightarrow>
   altp2m_p2m s ! i = Some a \<Longrightarrow> altp2m_p2m s ! j = Some a \<Longrightarrow> i = j"
  unfolding slots_distinct_def by fastforce

text \<open>
  With every view owned by one slot, the virtual CPUs whose view is the one of slot \<open>j\<close>
  are those whose index is \<open>j\<close>.
\<close>

lemma leaving_slot:
  assumes dist: "slots_distinct c s" and j: "j < MAX_ALTP2M c" "altp2m_p2m s ! j = Some a"
    and src: "\<forall>v\<in>set vs. ap2m_idx v \<noteq> k \<longrightarrow>
       (\<exists>b. altp2m_get_altp2m c (altp2m_p2m s) v = Inr (Some b))"
  shows "filter (\<lambda>v. ap2m_idx v \<noteq> k \<and> altp2m_get_altp2m c (altp2m_p2m s) v = Inr (Some a)) vs
       = filter (\<lambda>v. ap2m_idx v \<noteq> k \<and> ap2m_idx v = j) vs"
proof (rule filter_cong [OF refl])
  fix v assume v: "v \<in> set vs"
  show "(ap2m_idx v \<noteq> k \<and> altp2m_get_altp2m c (altp2m_p2m s) v = Inr (Some a))
      = (ap2m_idx v \<noteq> k \<and> ap2m_idx v = j)"
  proof (cases "ap2m_idx v = k")
    case True
    then show ?thesis by simp
  next
    case False
    with src v obtain b where b: "altp2m_get_altp2m c (altp2m_p2m s) v = Inr (Some b)"
      by blast
    then have iv: "ap2m_idx v < MAX_ALTP2M c" "altp2m_p2m s ! ap2m_idx v = Some b"
      by (simp_all add: get_altp2m_Some)
    have "b = a \<longleftrightarrow> ap2m_idx v = j"
    proof
      assume "b = a"
      with iv j dist show "ap2m_idx v = j"
        by (blast intro: slots_distinctD)
    next
      assume "ap2m_idx v = j"
      with iv j show "b = a" by simp
    qed
    with False b show ?thesis by auto
  qed
qed

lemma count_after_rebind:
  "length (filter (\<lambda>v. ap2m_idx v = j) (map (\<lambda>v. v\<lparr>ap2m_idx := k\<rparr>) vs))
   = (if j = k then length vs else 0)"
  by (induction vs) auto

lemma count_moved:
  "length (filter (\<lambda>v. ap2m_idx v \<noteq> k) vs) = length vs - length (filter (\<lambda>v. ap2m_idx v = k) vs)"
  using sum_length_filter_compl [of "\<lambda>v. ap2m_idx v = k" vs] by simp

text \<open>The counters of the occupied slots after a successful switch.\<close>

lemma switch_counters:
  assumes ok: "altp2m_switch_domain_altp2m_by_id c s k = Inr (0, s')"
    and dist: "slots_distinct c s"
    and j: "j < MAX_ALTP2M c" "altp2m_p2m s ! j = Some a" "xenheap s a = Some m"
  shows "\<exists>m'. xenheap s' a = Some m' \<and>
     active_vcpus m' =
       (if j = k then active_vcpus m + of_nat (length (vcpu s) - bound_to s k)
        else active_vcpus m - of_nat (bound_to s j))"
proof -
  from switch_success_unfold [OF ok] obtain pk vs' h' where
    k: "k < MAX_ALTP2M c" "altp2m_p2m s ! k = Some pk"
    and run: "switch_vcpus c (altp2m_p2m s) k (vcpu s) (xenheap s) = Inr (vs', h')"
    and s': "s' = s\<lparr>vcpu := vs', xenheap := h'\<rparr>"
    by blast
  note eff = switch_vcpus_heap [OF k run]
  from eff have src: "\<forall>v\<in>set (vcpu s). ap2m_idx v \<noteq> k \<longrightarrow>
      (\<exists>b. altp2m_get_altp2m c (altp2m_p2m s) v = Inr (Some b))" by blast
  have leave: "filter (\<lambda>v. ap2m_idx v \<noteq> k \<and>
        altp2m_get_altp2m c (altp2m_p2m s) v = Inr (Some a)) (vcpu s)
      = filter (\<lambda>v. ap2m_idx v \<noteq> k \<and> ap2m_idx v = j) (vcpu s)"
    by (rule leaving_slot [OF dist j(1,2) src])
  have apk: "a = pk \<longleftrightarrow> j = k"
    using dist j(1,2) k by (auto dest: slots_distinctD)
  from eff j(3) have h'a: "h' a = Some (m\<lparr>active_vcpus := active_vcpus m
          + (if a = pk then of_nat (length (filter (\<lambda>v. ap2m_idx v \<noteq> k) (vcpu s))) else 0)
          - of_nat (length (filter (\<lambda>v. ap2m_idx v \<noteq> k \<and>
                altp2m_get_altp2m c (altp2m_p2m s) v = Inr (Some a)) (vcpu s)))\<rparr>)"
    by simp
  show ?thesis
  proof (cases "j = k")
    case True
    have "filter (\<lambda>v. ap2m_idx v \<noteq> k \<and> ap2m_idx v = j) (vcpu s) = []"
      using True by (simp add: filter_empty_conv)
    with h'a leave apk True show ?thesis
      by (simp add: s' count_moved bound_to_def)
  next
    case False
    have "filter (\<lambda>v. ap2m_idx v \<noteq> k \<and> ap2m_idx v = j) (vcpu s)
        = filter (\<lambda>v. ap2m_idx v = j) (vcpu s)"
      using False by (intro filter_cong) auto
    with h'a leave apk False show ?thesis
      by (simp add: s' bound_to_def)
  qed
qed

lemma switch_vcpus_after:
  assumes ok: "altp2m_switch_domain_altp2m_by_id c s k = Inr (0, s')"
  shows "vcpu s' = map (\<lambda>v. v\<lparr>ap2m_idx := k\<rparr>) (vcpu s) \<and> altp2m_p2m s' = altp2m_p2m s"
  using switch_success_unfold [OF ok] by (auto dest: switch_vcpus_map)

lemma switch_keeps_I2:
  assumes ok: "altp2m_switch_domain_altp2m_by_id c s k = Inr (0, s')"
    and dist: "slots_distinct c s" and inv: "I2 c s" and n: "length (vcpu s) < 2 ^ 31"
  shows "I2 c s'"
  unfolding I2_def
proof (intro allI impI)
  fix j assume j: "j < MAX_ALTP2M c"
  from switch_vcpus_after [OF ok] have vs: "vcpu s' = map (\<lambda>v. v\<lparr>ap2m_idx := k\<rparr>) (vcpu s)"
    and tbl: "altp2m_p2m s' = altp2m_p2m s" by simp_all
  have cnt: "bound_to s' j = (if j = k then length (vcpu s) else 0)"
    by (simp add: bound_to_def vs count_after_rebind)
  show "case altp2m_p2m s' ! j of None \<Rightarrow> True
    | Some a \<Rightarrow> (case xenheap s' a of None \<Rightarrow> False
        | Some m \<Rightarrow> sint (active_vcpus m) = int (bound_to s' j))"
  proof (cases "altp2m_p2m s ! j")
    case None
    then show ?thesis by (simp add: tbl)
  next
    case (Some a)
    with inv j obtain m where m: "xenheap s a = Some m"
      "sint (active_vcpus m) = int (bound_to s j)"
      unfolding I2_def by (fastforce split: option.splits)
    from m(2) have w: "active_vcpus m = of_nat (bound_to s j)" by (rule word_of_sint_nat)
    from switch_counters [OF ok dist j Some m(1)] obtain m' where
      m': "xenheap s' a = Some m'" "active_vcpus m' =
       (if j = k then active_vcpus m + of_nat (length (vcpu s) - bound_to s k)
        else active_vcpus m - of_nat (bound_to s j))" by blast
    have le: "bound_to s k \<le> length (vcpu s)" by (simp add: bound_to_def)
    have "active_vcpus m' = of_nat (bound_to s' j)"
    proof (cases "j = k")
      case True
      with m'(2) w have "active_vcpus m' = of_nat (bound_to s k + (length (vcpu s) - bound_to s k))"
        by simp
      with le True cnt show ?thesis by simp
    next
      case False
      with m'(2) w cnt show ?thesis by simp
    qed
    moreover have "bound_to s' j < 2 ^ 31" using cnt n by simp
    ultimately have "sint (active_vcpus m') = int (bound_to s' j)"
      by (simp add: sint_of_nat_small)
    with Some m'(1) show ?thesis by (simp add: tbl)
  qed
qed

text \<open>
  C1. When \<open>altp2m_switch_domain_altp2m_by_id\<close> returns 0, every virtual CPU of the guest
  has \<open>ap2m_idx = k\<close>, and none was added or lost. In a table whose slots own their views
  one to one, the counter of every other occupied slot went down by the number of virtual
  CPUs that were bound to it (all of them moved off), and the counter of slot \<open>k\<close> went up
  by the number of virtual CPUs that were not bound to it, in the arithmetic of the 32-bit
  counter. If moreover I2 held before the call, and the guest has fewer than \<open>2 ^ 31\<close>
  virtual CPUs, so that their number fits the counter, then I2 holds after the call and the
  counter of slot \<open>k\<close> is the number of virtual CPUs of the guest.
\<close>

theorem switch_success:
  assumes ok: "altp2m_switch_domain_altp2m_by_id c s k = Inr (0, s')"
  shows "(\<forall>v\<in>set (vcpu s'). ap2m_idx v = k) \<and> length (vcpu s') = length (vcpu s) \<and>
    (slots_distinct c s \<longrightarrow>
       (\<forall>j<MAX_ALTP2M c. \<forall>a m. altp2m_p2m s ! j = Some a \<and> xenheap s a = Some m \<longrightarrow>
          (\<exists>m'. altp2m_p2m s' ! j = Some a \<and> xenheap s' a = Some m' \<and>
             active_vcpus m' =
               (if j = k then active_vcpus m + of_nat (length (vcpu s) - bound_to s k)
                else active_vcpus m - of_nat (bound_to s j))))) \<and>
    (slots_distinct c s \<and> I2 c s \<and> length (vcpu s) < 2 ^ 31 \<longrightarrow>
       I2 c s' \<and>
       (\<exists>a m. altp2m_p2m s' ! k = Some a \<and> xenheap s' a = Some m \<and>
          sint (active_vcpus m) = int (length (vcpu s'))))"
proof -
  note after = switch_vcpus_after [OF ok]
  have 1: "(\<forall>v\<in>set (vcpu s'). ap2m_idx v = k) \<and> length (vcpu s') = length (vcpu s)"
    using after by simp
  have 2: "\<exists>m'. altp2m_p2m s' ! j = Some a \<and> xenheap s' a = Some m' \<and>
             active_vcpus m' =
               (if j = k then active_vcpus m + of_nat (length (vcpu s) - bound_to s k)
                else active_vcpus m - of_nat (bound_to s j))"
    if "slots_distinct c s" "j < MAX_ALTP2M c" "altp2m_p2m s ! j = Some a" "xenheap s a = Some m"
    for j a m
    using switch_counters [OF ok that] that(3) after by simp
  have 3: "I2 c s' \<and>
       (\<exists>a m. altp2m_p2m s' ! k = Some a \<and> xenheap s' a = Some m \<and>
          sint (active_vcpus m) = int (length (vcpu s')))"
    if h: "slots_distinct c s" "I2 c s" "length (vcpu s) < 2 ^ 31"
  proof -
    have inv': "I2 c s'" by (rule switch_keeps_I2 [OF ok h])
    from switch_success_unfold [OF ok] obtain pk where
      k: "k < MAX_ALTP2M c" "altp2m_p2m s ! k = Some pk" by blast
    have "bound_to s' k = length (vcpu s')"
      using after by (simp add: bound_to_def count_after_rebind)
    with inv' k after show ?thesis
      unfolding I2_def by (fastforce split: option.splits)
  qed
  from 1 2 3 show ?thesis by blast
qed

lemma switch_two_views:
  "altp2m_switch_domain_altp2m_by_id cfg4 st_two_views 1 = Inr (0, st_switched)"
  by (simp add: altp2m_switch_domain_altp2m_by_id_def cfg4_def st_two_views_def st_switched_def
      altp2m_get_altp2m_def atomic_dec_def atomic_inc_def view_def Let_def fun_eq_iff)

theorem switch_success_witness:
  "altp2m_switch_domain_altp2m_by_id cfg4 st_two_views 1 = Inr (0, st_switched)
   \<and> slots_distinct cfg4 st_two_views \<and> I2 cfg4 st_two_views
   \<and> length (vcpu st_two_views) < 2 ^ 31
   \<and> I2 cfg4 st_switched
   \<and> (\<exists>a m. altp2m_p2m st_switched ! 1 = Some a \<and> xenheap st_switched a = Some m \<and>
          sint (active_vcpus m) = int (length (vcpu st_switched)))"
proof -
  have d: "slots_distinct cfg4 st_two_views"
    by (simp add: slots_distinct_def cfg4_def st_two_views_def all_less_4)
  have i: "I2 cfg4 st_two_views"
    by (simp add: I2_def cfg4_def st_two_views_def view_def bound_to_def all_less_4)
  have n: "length (vcpu st_two_views) < 2 ^ 31" by (simp add: st_two_views_def)
  from switch_success [OF switch_two_views] d i n switch_two_views show ?thesis by blast
qed

subsection \<open>When the rebinding loop returns\<close>

lemma atomic_dec_live:
  "h a \<noteq> None \<Longrightarrow> \<exists>h1. atomic_dec (Some a) h = Inr h1 \<and> (\<forall>b. (h1 b \<noteq> None) = (h b \<noteq> None))"
  by (auto simp: atomic_dec_def)

lemma atomic_inc_live:
  "h a \<noteq> None \<Longrightarrow> \<exists>h1. atomic_inc (Some a) h = Inr h1 \<and> (\<forall>b. (h1 b \<noteq> None) = (h b \<noteq> None))"
  by (auto simp: atomic_inc_def)

lemma get_altp2m_cases:
  "ap2m_idx v = INVALID_ALTP2M c \<or> ap2m_idx v < MAX_ALTP2M c \<Longrightarrow>
   altp2m_get_altp2m c tbl v =
     Inr (if ap2m_idx v = INVALID_ALTP2M c then None else tbl ! ap2m_idx v)"
  by (auto simp: altp2m_get_altp2m_def Let_def)

text \<open>
  The loop either rebinds every virtual CPU or stops at the first one, not bound to the
  target, whose lookup gives NULL.
\<close>

lemma switch_vcpus_total:
  assumes k: "k < MAX_ALTP2M c" "tbl ! k = Some pk" "MAX_ALTP2M c \<le> INVALID_ALTP2M c"
  shows "\<forall>v\<in>set vs. ap2m_idx v = INVALID_ALTP2M c \<or> ap2m_idx v < MAX_ALTP2M c \<Longrightarrow>
     \<forall>i<MAX_ALTP2M c. \<forall>a. tbl ! i = Some a \<longrightarrow> h a \<noteq> None \<Longrightarrow>
     (if \<forall>v\<in>set vs. ap2m_idx v \<noteq> k \<longrightarrow>
           ap2m_idx v \<noteq> INVALID_ALTP2M c \<and> tbl ! ap2m_idx v \<noteq> None
      then \<exists>r. switch_vcpus c tbl k vs h = Inr r
      else switch_vcpus c tbl k vs h = Inl Null_deref)"
proof (induction vs arbitrary: h)
  case Nil
  then show ?case by simp
next
  case (Cons v vs)
  from Cons.prems(1) have iv: "ap2m_idx v = INVALID_ALTP2M c \<or> ap2m_idx v < MAX_ALTP2M c"
    and ivs: "\<forall>v\<in>set vs. ap2m_idx v = INVALID_ALTP2M c \<or> ap2m_idx v < MAX_ALTP2M c"
    by simp_all
  show ?case
  proof (cases "k = ap2m_idx v")
    case True
    with Cons.IH [OF ivs Cons.prems(2)] show ?thesis
      by (auto simp: bind_eq_Inr split: if_splits)
  next
    case False
    note get = get_altp2m_cases [OF iv, of tbl]
    show ?thesis
    proof (cases "ap2m_idx v \<noteq> INVALID_ALTP2M c \<and> tbl ! ap2m_idx v \<noteq> None")
      case bad: False
      then have "altp2m_get_altp2m c tbl v = Inr None" using get by auto
      with False bad show ?thesis by (auto simp: atomic_dec_def)
    next
      case good: True
      with iv obtain a where a: "ap2m_idx v < MAX_ALTP2M c" "tbl ! ap2m_idx v = Some a"
        by auto
      with good get have g1: "altp2m_get_altp2m c tbl v = Inr (Some a)" by simp
      from a Cons.prems(2) have "h a \<noteq> None" by blast
      from atomic_dec_live [of h a, OF this] obtain h1 where
        h1: "atomic_dec (Some a) h = Inr h1" "\<forall>b. (h1 b \<noteq> None) = (h b \<noteq> None)" by blast
      from k have g2: "altp2m_get_altp2m c tbl (v\<lparr>ap2m_idx := k\<rparr>) = Inr (Some pk)"
        by (simp add: altp2m_get_altp2m_def)
      from k Cons.prems(2) h1(2) have "h1 pk \<noteq> None" by blast
      from atomic_inc_live [of h1 pk, OF this] obtain h2 where
        h2: "atomic_inc (Some pk) h1 = Inr h2" "\<forall>b. (h2 b \<noteq> None) = (h1 b \<noteq> None)" by blast
      from Cons.prems(2) h1(2) h2(2)
      have live: "\<forall>i<MAX_ALTP2M c. \<forall>a. tbl ! i = Some a \<longrightarrow> h2 a \<noteq> None" by simp
      have step: "switch_vcpus c tbl k (v # vs) h =
          bind (switch_vcpus c tbl k vs h2) (\<lambda>(vs', h'). Inr (v\<lparr>ap2m_idx := k\<rparr> # vs', h'))"
        using False g1 h1(1) g2 h2(1) by (simp add: Let_def)
      from Cons.IH [OF ivs live] good show ?thesis
        unfolding step by (auto simp: bind_eq_Inr split: if_splits)
    qed
  qed
qed

subsection \<open>Unbinding a virtual CPU\<close>

lemma vcpu_destroy_Inr:
  assumes "altp2m_vcpu_destroy c s i = Inr s1"
  shows "\<exists>p h. altp2m_get_altp2m c (altp2m_p2m s) (vcpu s ! i) = Inr p \<and>
     (if p \<noteq> None then atomic_dec p (xenheap s) else Inr (xenheap s)) = Inr h \<and>
     s1 = s\<lparr>vcpu := (vcpu s)[i := (vcpu s ! i)\<lparr>ap2m_idx := INVALID_ALTP2M c\<rparr>], xenheap := h\<rparr>"
  using assms
  by (auto simp: altp2m_vcpu_destroy_def altp2m_vcpu_reset_def Let_def bind_eq_Inr)

lemma get_altp2m_unbound:
  "ap2m_idx v = INVALID_ALTP2M c \<Longrightarrow> altp2m_get_altp2m c tbl v = Inr None"
  by (simp add: altp2m_get_altp2m_def)

lemma vcpu_destroy_again:
  assumes i: "i < length (vcpu s)" and ok: "altp2m_vcpu_destroy c s i = Inr s1"
  shows "altp2m_vcpu_destroy c s1 i = Inr s1"
proof -
  from vcpu_destroy_Inr [OF ok] obtain h where
    s1: "s1 = s\<lparr>vcpu := (vcpu s)[i := (vcpu s ! i)\<lparr>ap2m_idx := INVALID_ALTP2M c\<rparr>], xenheap := h\<rparr>"
    by blast
  from i have v: "vcpu s1 ! i = (vcpu s ! i)\<lparr>ap2m_idx := INVALID_ALTP2M c\<rparr>"
    by (simp add: s1)
  then have "altp2m_get_altp2m c (altp2m_p2m s1) (vcpu s1 ! i) = Inr None"
    by (simp add: get_altp2m_unbound)
  moreover have "(vcpu s1)[i := altp2m_vcpu_reset c (vcpu s1 ! i)] = vcpu s1"
    unfolding v by (simp add: s1 altp2m_vcpu_reset_def)
  ultimately show ?thesis
    by (simp add: altp2m_vcpu_destroy_def Let_def)
qed

lemma I1_two_views: "I1 cfg4 st_two_views"
  by (simp add: I1_def cfg4_def st_two_views_def)

lemma slots_live_two_views: "slots_live cfg4 st_two_views"
  by (simp add: slots_live_def cfg4_def st_two_views_def all_less_4)

lemma vcpu_destroy_two_views:
  "altp2m_vcpu_destroy cfg4 st_two_views 0 = Inr st_one_unbound"
  by (simp add: altp2m_vcpu_destroy_def altp2m_vcpu_reset_def altp2m_get_altp2m_def
      atomic_dec_def cfg4_def st_two_views_def st_one_unbound_def view_def Let_def fun_eq_iff)

text \<open>
  C9. \<open>altp2m_vcpu_destroy\<close> on a virtual CPU of the guest returns whenever I1 holds and no
  slot points to released memory. When it returns, the virtual CPU has
  \<open>ap2m_idx = INVALID_ALTP2M\<close>, no other virtual CPU and no slot has changed; the heap is
  as it was when the virtual CPU was unbound (or its slot empty), and otherwise differs
  exactly in the counter of the view it was bound to, which is one less. Running it again
  on the same virtual CPU returns the state unchanged.
\<close>

theorem vcpu_destroy_unbinds:
  assumes i: "i < length (vcpu s)"
  shows "(I1 c s \<and> slots_live c s \<longrightarrow> (\<exists>s1. altp2m_vcpu_destroy c s i = Inr s1)) \<and>
    (\<forall>s1. altp2m_vcpu_destroy c s i = Inr s1 \<longrightarrow>
       ap2m_idx (vcpu s1 ! i) = INVALID_ALTP2M c \<and>
       vcpu s1 = (vcpu s)[i := (vcpu s ! i)\<lparr>ap2m_idx := INVALID_ALTP2M c\<rparr>] \<and>
       altp2m_p2m s1 = altp2m_p2m s \<and>
       (ap2m_idx (vcpu s ! i) = INVALID_ALTP2M c \<or> altp2m_p2m s ! ap2m_idx (vcpu s ! i) = None
          \<longrightarrow> xenheap s1 = xenheap s) \<and>
       (\<forall>a. ap2m_idx (vcpu s ! i) \<noteq> INVALID_ALTP2M c \<and>
            altp2m_p2m s ! ap2m_idx (vcpu s ! i) = Some a \<longrightarrow>
            (\<exists>m. xenheap s a = Some m \<and>
               xenheap s1 = (xenheap s)(a \<mapsto> m\<lparr>active_vcpus := active_vcpus m - 1\<rparr>))) \<and>
       altp2m_vcpu_destroy c s1 i = Inr s1)"
proof (intro conjI allI impI)
  assume "I1 c s \<and> slots_live c s"
  then have iv: "ap2m_idx (vcpu s ! i) = INVALID_ALTP2M c \<or> ap2m_idx (vcpu s ! i) < MAX_ALTP2M c"
    and live: "slots_live c s"
    using i by (auto simp: I1_def)
  show "\<exists>s1. altp2m_vcpu_destroy c s i = Inr s1"
  proof (cases "ap2m_idx (vcpu s ! i) = INVALID_ALTP2M c")
    case True
    then show ?thesis
      by (simp add: altp2m_vcpu_destroy_def Let_def get_altp2m_unbound)
  next
    case False
    with iv have lt: "ap2m_idx (vcpu s ! i) < MAX_ALTP2M c" by simp
    show ?thesis
    proof (cases "altp2m_p2m s ! ap2m_idx (vcpu s ! i)")
      case None
      with False lt show ?thesis
        by (simp add: altp2m_vcpu_destroy_def Let_def altp2m_get_altp2m_def)
    next
      case (Some a)
      with live lt have "xenheap s a \<noteq> None"
        unfolding slots_live_def by (fastforce split: option.splits)
      from atomic_dec_live [of "xenheap s" a, OF this] Some False lt show ?thesis
        by (auto simp: altp2m_vcpu_destroy_def Let_def altp2m_get_altp2m_def)
    qed
  qed
next
  fix s1 assume ok: "altp2m_vcpu_destroy c s i = Inr s1"
  from vcpu_destroy_Inr [OF ok] obtain p h where
    p: "altp2m_get_altp2m c (altp2m_p2m s) (vcpu s ! i) = Inr p"
    and h: "(if p \<noteq> None then atomic_dec p (xenheap s) else Inr (xenheap s)) = Inr h"
    and s1: "s1 = s\<lparr>vcpu := (vcpu s)[i := (vcpu s ! i)\<lparr>ap2m_idx := INVALID_ALTP2M c\<rparr>], xenheap := h\<rparr>"
    by blast
  show "ap2m_idx (vcpu s1 ! i) = INVALID_ALTP2M c" using i by (simp add: s1)
  show "vcpu s1 = (vcpu s)[i := (vcpu s ! i)\<lparr>ap2m_idx := INVALID_ALTP2M c\<rparr>]"
    by (simp add: s1)
  show "altp2m_p2m s1 = altp2m_p2m s" by (simp add: s1)
  show "altp2m_vcpu_destroy c s1 i = Inr s1" by (rule vcpu_destroy_again [OF i ok])
  {
    assume "ap2m_idx (vcpu s ! i) = INVALID_ALTP2M c \<or> altp2m_p2m s ! ap2m_idx (vcpu s ! i) = None"
    with p have "p = None"
      by (auto simp: altp2m_get_altp2m_def Let_def split: if_splits)
    with h show "xenheap s1 = xenheap s" by (simp add: s1)
  }
  {
    fix a
    assume "ap2m_idx (vcpu s ! i) \<noteq> INVALID_ALTP2M c \<and>
            altp2m_p2m s ! ap2m_idx (vcpu s ! i) = Some a"
    with p have "p = Some a"
      by (auto simp: altp2m_get_altp2m_def Let_def split: if_splits)
    with h have "atomic_dec (Some a) (xenheap s) = Inr h" by simp
    from atomic_dec_Inr [OF this]
    show "\<exists>m. xenheap s a = Some m \<and>
               xenheap s1 = (xenheap s)(a \<mapsto> m\<lparr>active_vcpus := active_vcpus m - 1\<rparr>)"
      by (auto simp: s1)
  }
qed

theorem vcpu_destroy_unbinds_witness:
  "0 < length (vcpu st_two_views) \<and> I1 cfg4 st_two_views \<and> slots_live cfg4 st_two_views
   \<and> altp2m_vcpu_destroy cfg4 st_two_views 0 = Inr st_one_unbound
   \<and> ap2m_idx (vcpu st_one_unbound ! 0) = INVALID_ALTP2M cfg4
   \<and> altp2m_vcpu_destroy cfg4 st_one_unbound 0 = Inr st_one_unbound"
proof -
  have n: "0 < length (vcpu st_two_views)" by (simp add: st_two_views_def)
  from vcpu_destroy_unbinds [OF n, of cfg4] vcpu_destroy_two_views
  have "ap2m_idx (vcpu st_one_unbound ! 0) = INVALID_ALTP2M cfg4
    \<and> altp2m_vcpu_destroy cfg4 st_one_unbound 0 = Inr st_one_unbound"
    by blast
  with n I1_two_views slots_live_two_views vcpu_destroy_two_views show ?thesis by blast
qed

subsection \<open>The unchecked lookup in the rebinding loop\<close>

lemma switch_outcome:
  assumes k: "k < MAX_ALTP2M c" "altp2m_p2m s ! k \<noteq> None" "MAX_ALTP2M c \<le> INVALID_ALTP2M c"
    and i1: "I1 c s" and live: "slots_live c s"
  shows "if \<forall>v\<in>set (vcpu s). ap2m_idx v \<noteq> k \<longrightarrow>
           ap2m_idx v \<noteq> INVALID_ALTP2M c \<and> altp2m_p2m s ! ap2m_idx v \<noteq> None
      then \<exists>s'. altp2m_switch_domain_altp2m_by_id c s k = Inr (0, s')
      else altp2m_switch_domain_altp2m_by_id c s k = Inl Null_deref"
proof -
  from k(2) obtain pk where pk: "altp2m_p2m s ! k = Some pk" by blast
  from i1 have a: "\<forall>v\<in>set (vcpu s). ap2m_idx v = INVALID_ALTP2M c \<or> ap2m_idx v < MAX_ALTP2M c"
    by (simp add: I1_def)
  from live have b: "\<forall>i<MAX_ALTP2M c. \<forall>a. altp2m_p2m s ! i = Some a \<longrightarrow> xenheap s a \<noteq> None"
    unfolding slots_live_def by (fastforce split: option.splits)
  from switch_vcpus_total [OF k(1) pk k(3) a b] k(1) pk show ?thesis
    by (auto simp: altp2m_switch_domain_altp2m_by_id_def split: if_splits)
qed

lemma vcpu_destroy_keeps:
  assumes i: "i < length (vcpu s)" and ok: "altp2m_vcpu_destroy c s i = Inr s1"
    and i1: "I1 c s" and live: "slots_live c s"
  shows "I1 c s1 \<and> slots_live c s1 \<and> altp2m_p2m s1 = altp2m_p2m s \<and>
    vcpu s1 ! i \<in> set (vcpu s1) \<and> ap2m_idx (vcpu s1 ! i) = INVALID_ALTP2M c"
proof -
  from vcpu_destroy_Inr [OF ok] obtain p h where
    h: "(if p \<noteq> None then atomic_dec p (xenheap s) else Inr (xenheap s)) = Inr h"
    and s1: "s1 = s\<lparr>vcpu := (vcpu s)[i := (vcpu s ! i)\<lparr>ap2m_idx := INVALID_ALTP2M c\<rparr>], xenheap := h\<rparr>"
    by blast
  have dom: "(h b \<noteq> None) = (xenheap s b \<noteq> None)" for b
    using h by (cases p) (auto dest!: atomic_dec_Inr split: if_splits)
  have "I1 c s1"
    using i1 unfolding I1_def s1 by (auto dest!: set_update_subset_insert [THEN subsetD])
  moreover have "slots_live c s1"
    using live dom unfolding slots_live_def s1 by (simp split: option.splits)
  moreover have "vcpu s1 ! i \<in> set (vcpu s1)"
    using i by (intro nth_mem) (simp add: s1)
  ultimately show ?thesis using i by (simp add: s1)
qed

text \<open>
  C10. The loop of \<open>altp2m_switch_domain_altp2m_by_id\<close> passes the result of
  \<open>altp2m_get_altp2m\<close> to \<open>atomic_dec\<close> unchecked. For a target slot that is occupied, a
  sentinel that is no slot index, and a guest satisfying I1 with no slot pointing to released
  memory: the call succeeds exactly when every virtual CPU not bound to the target has an
  index other than \<open>INVALID_ALTP2M\<close> that names an occupied slot, and it dereferences NULL
  exactly when some virtual CPU does not; in particular it dereferences NULL after
  \<open>altp2m_vcpu_destroy\<close> has unbound any virtual CPU of the guest.
\<close>

theorem switch_lookup_unchecked:
  assumes k: "k < MAX_ALTP2M c" "altp2m_p2m s ! k \<noteq> None" "MAX_ALTP2M c \<le> INVALID_ALTP2M c"
    and i1: "I1 c s" and live: "slots_live c s"
  shows "((\<exists>s'. altp2m_switch_domain_altp2m_by_id c s k = Inr (0, s')) =
       (\<forall>v\<in>set (vcpu s). ap2m_idx v \<noteq> k \<longrightarrow>
           ap2m_idx v \<noteq> INVALID_ALTP2M c \<and> altp2m_p2m s ! ap2m_idx v \<noteq> None)) \<and>
    ((altp2m_switch_domain_altp2m_by_id c s k = Inl Null_deref) =
       (\<exists>v\<in>set (vcpu s). ap2m_idx v \<noteq> k \<and>
           (ap2m_idx v = INVALID_ALTP2M c \<or> altp2m_p2m s ! ap2m_idx v = None))) \<and>
    (\<forall>i s1. i < length (vcpu s) \<and> altp2m_vcpu_destroy c s i = Inr s1 \<longrightarrow>
       altp2m_switch_domain_altp2m_by_id c s1 k = Inl Null_deref)"
proof (intro conjI allI impI)
  note out = switch_outcome [OF k i1 live]
  show "(\<exists>s'. altp2m_switch_domain_altp2m_by_id c s k = Inr (0, s')) =
       (\<forall>v\<in>set (vcpu s). ap2m_idx v \<noteq> k \<longrightarrow>
           ap2m_idx v \<noteq> INVALID_ALTP2M c \<and> altp2m_p2m s ! ap2m_idx v \<noteq> None)"
    using out by (auto split: if_splits)
  show "(altp2m_switch_domain_altp2m_by_id c s k = Inl Null_deref) =
       (\<exists>v\<in>set (vcpu s). ap2m_idx v \<noteq> k \<and>
           (ap2m_idx v = INVALID_ALTP2M c \<or> altp2m_p2m s ! ap2m_idx v = None))"
    using out by (auto split: if_splits)
next
  fix i s1
  assume "i < length (vcpu s) \<and> altp2m_vcpu_destroy c s i = Inr s1"
  then have i: "i < length (vcpu s)" and ok: "altp2m_vcpu_destroy c s i = Inr s1" by simp_all
  from vcpu_destroy_keeps [OF i ok i1 live] have
    keep: "I1 c s1" "slots_live c s1" "altp2m_p2m s1 = altp2m_p2m s"
    and v: "vcpu s1 ! i \<in> set (vcpu s1)" "ap2m_idx (vcpu s1 ! i) = INVALID_ALTP2M c"
    by simp_all
  from k keep(3) have k1: "altp2m_p2m s1 ! k \<noteq> None" by simp
  from k v(2) have "ap2m_idx (vcpu s1 ! i) \<noteq> k" by simp
  with v switch_outcome [OF k(1) k1 k(3) keep(1,2)]
  show "altp2m_switch_domain_altp2m_by_id c s1 k = Inl Null_deref"
    by (auto split: if_splits)
qed

theorem switch_lookup_unchecked_witness:
  "1 < MAX_ALTP2M cfg4 \<and> altp2m_p2m st_two_views ! 1 \<noteq> None
   \<and> MAX_ALTP2M cfg4 \<le> INVALID_ALTP2M cfg4 \<and> I1 cfg4 st_two_views
   \<and> slots_live cfg4 st_two_views
   \<and> (\<exists>s'. altp2m_switch_domain_altp2m_by_id cfg4 st_two_views 1 = Inr (0, s'))
   \<and> altp2m_vcpu_destroy cfg4 st_two_views 0 = Inr st_one_unbound
   \<and> altp2m_switch_domain_altp2m_by_id cfg4 st_one_unbound 1 = Inl Null_deref"
proof -
  have k: "1 < MAX_ALTP2M cfg4" "altp2m_p2m st_two_views ! 1 \<noteq> None"
    "MAX_ALTP2M cfg4 \<le> INVALID_ALTP2M cfg4"
    by (simp_all add: cfg4_def st_two_views_def)
  note main = switch_lookup_unchecked [OF k I1_two_views slots_live_two_views]
  have "\<forall>v\<in>set (vcpu st_two_views). ap2m_idx v \<noteq> 1 \<longrightarrow>
      ap2m_idx v \<noteq> INVALID_ALTP2M cfg4 \<and> altp2m_p2m st_two_views ! ap2m_idx v \<noteq> None"
    by (simp add: cfg4_def st_two_views_def)
  with main have a: "\<exists>s'. altp2m_switch_domain_altp2m_by_id cfg4 st_two_views 1 = Inr (0, s')"
    by blast
  have "0 < length (vcpu st_two_views)" by (simp add: st_two_views_def)
  with main vcpu_destroy_two_views
  have b: "altp2m_switch_domain_altp2m_by_id cfg4 st_one_unbound 1 = Inl Null_deref"
    by blast
  from k I1_two_views slots_live_two_views a b vcpu_destroy_two_views show ?thesis by blast
qed

subsection \<open>Allocating a view at an index\<close>

text \<open>What \<open>altp2m_init_helper\<close> does on an empty slot, by the environment's answers.\<close>

lemma init_helper_cases:
  assumes "altp2m_p2m s ! idx = None"
  shows "altp2m_init_helper e s idx =
    (case xzalloc_ret e of
       None \<Rightarrow> Inr (- ENOMEM, s\<lparr>trace := trace s @ [Ev_xzalloc None]\<rparr>)
     | Some a \<Rightarrow>
         if p2m_init_one_ret e \<noteq> 0 then
           Inr (p2m_init_one_ret e,
                s\<lparr>altp2m_p2m := (altp2m_p2m s)[idx := None],
                  xenheap := (xenheap s)(a := None),
                  trace := trace s @ [Ev_xzalloc (Some a),
                    Ev_p2m_init_one a (p2m_init_one_ret e), Ev_xfree a,
                    Ev_slot_write idx None]\<rparr>)
         else
           Inr (0,
                s\<lparr>altp2m_p2m := (altp2m_p2m s)[idx := Some a],
                  xenheap := (xenheap s)(a \<mapsto>
                    \<lparr>active_vcpus = 0, p2m_class = p2m_alternate, p2m_life = Initialized\<rparr>),
                  trace := trace s @ [Ev_xzalloc (Some a), Ev_p2m_init_one a 0,
                    Ev_slot_write idx (Some a)]\<rparr>))"
  using assms
  by (simp add: altp2m_init_helper_def xzalloc_def store_p2m_class_def p2m_init_one_def
      xfree_def slot_write_def split: option.splits)

text \<open>
  C6. \<open>altp2m_init_by_id\<close> returns \<open>-EINVAL\<close> and leaves the state as it was, allocating
  nothing, for an index at or beyond \<open>MAX_ALTP2M\<close>; it does the same, with a value that
  is not 0, for a slot that is occupied, so the view there is not replaced. On an empty
  slot, when \<open>xzalloc\<close> gives NULL it returns \<open>-ENOMEM\<close> with the table and the heap as
  they were; when \<open>p2m_init_one\<close> gives a value other than 0 it returns that value, the
  object it had allocated is released, no other object is touched, and the table is as it
  was: the slot is empty.
\<close>

theorem init_by_id_failures:
  "(MAX_ALTP2M c \<le> idx \<longrightarrow> altp2m_init_by_id c e s idx = Inr (- EINVAL, s)) \<and>
   (idx < MAX_ALTP2M c \<and> altp2m_p2m s ! idx \<noteq> None \<longrightarrow>
      altp2m_init_by_id c e s idx = Inr (- EINVAL, s) \<and> - EINVAL \<noteq> (0::int)) \<and>
   (idx < MAX_ALTP2M c \<and> altp2m_p2m s ! idx = None \<and> xzalloc_ret e = None \<longrightarrow>
      (\<exists>s'. altp2m_init_by_id c e s idx = Inr (- ENOMEM, s') \<and>
         altp2m_p2m s' = altp2m_p2m s \<and> xenheap s' = xenheap s \<and>
         trace s' = trace s @ [Ev_xzalloc None])) \<and>
   (\<forall>a. idx < MAX_ALTP2M c \<and> altp2m_p2m s ! idx = None \<and> xzalloc_ret e = Some a \<and>
        p2m_init_one_ret e \<noteq> 0 \<longrightarrow>
      (\<exists>s'. altp2m_init_by_id c e s idx = Inr (p2m_init_one_ret e, s') \<and>
         altp2m_p2m s' = altp2m_p2m s \<and> xenheap s' a = None \<and>
         (\<forall>b. b \<noteq> a \<longrightarrow> xenheap s' b = xenheap s b) \<and>
         trace s' = trace s @ [Ev_xzalloc (Some a), Ev_p2m_init_one a (p2m_init_one_ret e),
                               Ev_xfree a, Ev_slot_write idx None]))"
proof -
  have 1: "altp2m_init_by_id c e s idx = Inr (- EINVAL, s)" if "MAX_ALTP2M c \<le> idx"
    using that by (simp add: altp2m_init_by_id_def)
  have 2: "altp2m_init_by_id c e s idx = Inr (- EINVAL, s) \<and> - EINVAL \<noteq> (0::int)"
    if "idx < MAX_ALTP2M c \<and> altp2m_p2m s ! idx \<noteq> None"
    using that by (auto simp: altp2m_init_by_id_def EINVAL_def)
  have 3: "\<exists>s'. altp2m_init_by_id c e s idx = Inr (- ENOMEM, s') \<and>
         altp2m_p2m s' = altp2m_p2m s \<and> xenheap s' = xenheap s \<and>
         trace s' = trace s @ [Ev_xzalloc None]"
    if "idx < MAX_ALTP2M c \<and> altp2m_p2m s ! idx = None \<and> xzalloc_ret e = None"
    using that by (simp add: altp2m_init_by_id_def init_helper_cases)
  have 4: "\<exists>s'. altp2m_init_by_id c e s idx = Inr (p2m_init_one_ret e, s') \<and>
         altp2m_p2m s' = altp2m_p2m s \<and> xenheap s' a = None \<and>
         (\<forall>b. b \<noteq> a \<longrightarrow> xenheap s' b = xenheap s b) \<and>
         trace s' = trace s @ [Ev_xzalloc (Some a), Ev_p2m_init_one a (p2m_init_one_ret e),
                               Ev_xfree a, Ev_slot_write idx None]"
    if h: "idx < MAX_ALTP2M c \<and> altp2m_p2m s ! idx = None \<and> xzalloc_ret e = Some a \<and>
        p2m_init_one_ret e \<noteq> 0" for a
  proof -
    from h have "(altp2m_p2m s)[idx := None] = altp2m_p2m s"
      by (metis list_update_id)
    with h show ?thesis
      by (simp add: altp2m_init_by_id_def init_helper_cases)
  qed
  from 1 2 3 4 show ?thesis by blast
qed

theorem init_by_id_failures_witness:
  "altp2m_init_by_id cfg4 ext_init_fails st_two_views 4 = Inr (- EINVAL, st_two_views)
   \<and> altp2m_init_by_id cfg4 ext_init_fails st_two_views 1 = Inr (- EINVAL, st_two_views)
   \<and> (\<exists>s'. altp2m_init_by_id cfg4 ext_no_memory st_two_views 2 = Inr (- ENOMEM, s') \<and>
         altp2m_p2m s' = altp2m_p2m st_two_views \<and> xenheap s' = xenheap st_two_views)
   \<and> (\<exists>s'. altp2m_init_by_id cfg4 ext_init_fails st_two_views 2 = Inr (- 16, s') \<and>
         altp2m_p2m s' = altp2m_p2m st_two_views \<and> xenheap s' 102 = None \<and>
         (\<forall>b. b \<noteq> 102 \<longrightarrow> xenheap s' b = xenheap st_two_views b))"
proof -
  have a: "MAX_ALTP2M cfg4 \<le> 4" by (simp add: cfg4_def)
  have b: "1 < MAX_ALTP2M cfg4 \<and> altp2m_p2m st_two_views ! 1 \<noteq> None"
    by (simp add: cfg4_def st_two_views_def)
  have c: "2 < MAX_ALTP2M cfg4 \<and> altp2m_p2m st_two_views ! 2 = None
      \<and> xzalloc_ret ext_no_memory = None"
    by (simp add: cfg4_def st_two_views_def ext_no_memory_def)
  have d: "2 < MAX_ALTP2M cfg4 \<and> altp2m_p2m st_two_views ! 2 = None
      \<and> xzalloc_ret ext_init_fails = Some 102 \<and> p2m_init_one_ret ext_init_fails \<noteq> 0"
    by (simp add: cfg4_def st_two_views_def ext_init_fails_def)
  have r: "p2m_init_one_ret ext_init_fails = - 16" by (simp add: ext_init_fails_def)
  from init_by_id_failures [of cfg4 4 ext_init_fails st_two_views] a
  have 1: "altp2m_init_by_id cfg4 ext_init_fails st_two_views 4 = Inr (- EINVAL, st_two_views)"
    by blast
  from init_by_id_failures [of cfg4 1 ext_init_fails st_two_views] b
  have 2: "altp2m_init_by_id cfg4 ext_init_fails st_two_views 1 = Inr (- EINVAL, st_two_views)"
    by blast
  from init_by_id_failures [of cfg4 2 ext_no_memory st_two_views] c
  have 3: "\<exists>s'. altp2m_init_by_id cfg4 ext_no_memory st_two_views 2 = Inr (- ENOMEM, s') \<and>
         altp2m_p2m s' = altp2m_p2m st_two_views \<and> xenheap s' = xenheap st_two_views"
    by blast
  from init_by_id_failures [of cfg4 2 ext_init_fails st_two_views] d
  have 4: "\<exists>s'. altp2m_init_by_id cfg4 ext_init_fails st_two_views 2 = Inr (- 16, s') \<and>
         altp2m_p2m s' = altp2m_p2m st_two_views \<and> xenheap s' 102 = None \<and>
         (\<forall>b. b \<noteq> 102 \<longrightarrow> xenheap s' b = xenheap st_two_views b)"
    unfolding r by blast
  from 1 2 3 4 show ?thesis by blast
qed

subsection \<open>Allocating a view at the first empty slot\<close>

lemma unat_u16: "n < 2 ^ 16 \<Longrightarrow> unat (of_nat n :: 16 word) = n"
  by (simp add: unat_of_nat take_bit_nat_eq_self)

lemma init_next_loop_found:
  assumes m: "MAX_ALTP2M c < 2 ^ 16" and j: "j < MAX_ALTP2M c" "altp2m_p2m s ! j = None"
  shows "n \<le> j \<Longrightarrow> \<forall>i. n \<le> i \<and> i < j \<longrightarrow> altp2m_p2m s ! i \<noteq> None \<Longrightarrow>
    init_next_loop c e s (of_nat n) =
      Some (bind (altp2m_init_helper e s j) (\<lambda>(rc, s'). Inr (rc, Some (of_nat j), s')))"
proof (induction "j - n" arbitrary: n)
  case 0
  then have "n = j" by simp
  with m j show ?case
    by (subst init_next_loop.simps) (simp add: unat_u16)
next
  case (Suc d)
  then have lt: "n < j" by simp
  with m j have n: "unat (of_nat n :: 16 word) = n" "n < MAX_ALTP2M c"
    by (simp_all add: unat_u16)
  from lt Suc.prems have occ: "altp2m_p2m s ! n \<noteq> None" by simp
  have "init_next_loop c e s (of_nat n) = init_next_loop c e s (of_nat (Suc n))"
    using n occ by (subst init_next_loop.simps) (simp add: add.commute)
  also have "\<dots> = Some (bind (altp2m_init_helper e s j)
      (\<lambda>(rc, s'). Inr (rc, Some (of_nat j), s')))"
    using Suc.hyps(2) lt Suc.prems(2) by (intro Suc.hyps(1)) auto
  finally show ?case .
qed

lemma init_next_loop_full:
  assumes m: "MAX_ALTP2M c < 2 ^ 16"
  shows "n \<le> MAX_ALTP2M c \<Longrightarrow>
    \<forall>i. n \<le> i \<and> i < MAX_ALTP2M c \<longrightarrow> altp2m_p2m s ! i \<noteq> None \<Longrightarrow>
    init_next_loop c e s (of_nat n) = Some (Inr (- EINVAL, None, s))"
proof (induction "MAX_ALTP2M c - n" arbitrary: n)
  case 0
  then have "n = MAX_ALTP2M c" by simp
  with m show ?case
    by (subst init_next_loop.simps) (simp add: unat_u16)
next
  case (Suc d)
  then have lt: "n < MAX_ALTP2M c" by simp
  with m have n: "unat (of_nat n :: 16 word) = n" by (simp add: unat_u16)
  from lt Suc.prems have occ: "altp2m_p2m s ! n \<noteq> None" by simp
  have "init_next_loop c e s (of_nat n) = init_next_loop c e s (of_nat (Suc n))"
    using n lt occ by (subst init_next_loop.simps) (simp add: add.commute)
  also have "\<dots> = Some (Inr (- EINVAL, None, s))"
    using Suc.hyps(2) lt Suc.prems(2) by (intro Suc.hyps(1)) auto
  finally show ?case .
qed

text \<open>
  C7. With \<open>MAX_ALTP2M\<close> below \<open>2 ^ 16\<close>, so that the 16-bit loop counter reaches it,
  \<open>altp2m_init_next_available\<close> returns. When every slot is occupied it returns
  \<open>-EINVAL\<close>, which is not \<open>-ENOMEM\<close>, writes nothing to \<open>*idx\<close> and leaves the state
  as it was. Otherwise, for the least index \<open>j\<close> whose slot is empty, it is
  \<open>altp2m_init_helper\<close> at \<open>j\<close> and nothing else, with \<open>j\<close> written to \<open>*idx\<close>; when
  allocation and initialization succeed it returns 0, and the table differs from the old
  one in slot \<open>j\<close>, which holds the new view.
\<close>

theorem init_next_available_first_empty:
  assumes m: "MAX_ALTP2M c < 2 ^ 16"
  shows "((\<forall>i<MAX_ALTP2M c. altp2m_p2m s ! i \<noteq> None) \<longrightarrow>
       altp2m_init_next_available c e s = Some (Inr (- EINVAL, None, s)) \<and>
       - EINVAL \<noteq> - ENOMEM) \<and>
    (\<forall>j. j < MAX_ALTP2M c \<and> altp2m_p2m s ! j = None \<and> (\<forall>i<j. altp2m_p2m s ! i \<noteq> None) \<longrightarrow>
       altp2m_init_next_available c e s =
         Some (bind (altp2m_init_helper e s j) (\<lambda>(rc, s'). Inr (rc, Some (of_nat j), s'))) \<and>
       unat (of_nat j :: 16 word) = j \<and>
       (\<forall>a. xzalloc_ret e = Some a \<and> p2m_init_one_ret e = 0 \<longrightarrow>
          (\<exists>s'. altp2m_init_next_available c e s = Some (Inr (0, Some (of_nat j), s')) \<and>
             altp2m_p2m s' = (altp2m_p2m s)[j := Some a] \<and>
             xenheap s' a =
               Some \<lparr>active_vcpus = 0, p2m_class = p2m_alternate, p2m_life = Initialized\<rparr>)))"
proof -
  have 1: "altp2m_init_next_available c e s = Some (Inr (- EINVAL, None, s)) \<and>
       - EINVAL \<noteq> - ENOMEM"
    if "\<forall>i<MAX_ALTP2M c. altp2m_p2m s ! i \<noteq> None"
    using init_next_loop_full [OF m, of 0 s e] that
    by (simp add: altp2m_init_next_available_def EINVAL_def ENOMEM_def)
  have 2: "altp2m_init_next_available c e s =
         Some (bind (altp2m_init_helper e s j) (\<lambda>(rc, s'). Inr (rc, Some (of_nat j), s'))) \<and>
       unat (of_nat j :: 16 word) = j \<and>
       (\<forall>a. xzalloc_ret e = Some a \<and> p2m_init_one_ret e = 0 \<longrightarrow>
          (\<exists>s'. altp2m_init_next_available c e s = Some (Inr (0, Some (of_nat j), s')) \<and>
             altp2m_p2m s' = (altp2m_p2m s)[j := Some a] \<and>
             xenheap s' a =
               Some \<lparr>active_vcpus = 0, p2m_class = p2m_alternate, p2m_life = Initialized\<rparr>))"
    if h: "j < MAX_ALTP2M c \<and> altp2m_p2m s ! j = None \<and> (\<forall>i<j. altp2m_p2m s ! i \<noteq> None)"
    for j
  proof -
    from h have j: "j < MAX_ALTP2M c" "altp2m_p2m s ! j = None" by simp_all
    from h have "\<forall>i. 0 \<le> i \<and> i < j \<longrightarrow> altp2m_p2m s ! i \<noteq> None" by simp
    from init_next_loop_found [OF m j _ this, of e]
    have run: "altp2m_init_next_available c e s =
         Some (bind (altp2m_init_helper e s j) (\<lambda>(rc, s'). Inr (rc, Some (of_nat j), s')))"
      by (simp add: altp2m_init_next_available_def)
    moreover from m j(1) have "unat (of_nat j :: 16 word) = j" by (simp add: unat_u16)
    ultimately show ?thesis
      by (simp add: init_helper_cases [OF j(2)])
  qed
  from 1 2 show ?thesis by blast
qed

theorem init_next_available_first_empty_witness:
  "MAX_ALTP2M cfg4 < 2 ^ 16
   \<and> altp2m_init_next_available cfg4 ext_ok st_full_table = Some (Inr (- EINVAL, None, st_full_table))
   \<and> (\<exists>s'. altp2m_init_next_available cfg4 ext_ok st_two_views = Some (Inr (0, Some 2, s')) \<and>
         altp2m_p2m s' = [Some 100, Some 101, Some 102, None])"
proof -
  have m: "MAX_ALTP2M cfg4 < 2 ^ 16" by (simp add: cfg4_def)
  note main = init_next_available_first_empty [OF m]
  have "\<forall>i<MAX_ALTP2M cfg4. altp2m_p2m st_full_table ! i \<noteq> None"
    by (simp add: cfg4_def st_full_table_def all_less_4)
  with main [of st_full_table ext_ok]
  have a: "altp2m_init_next_available cfg4 ext_ok st_full_table =
      Some (Inr (- EINVAL, None, st_full_table))" by blast
  have "(2::nat) < MAX_ALTP2M cfg4 \<and> altp2m_p2m st_two_views ! 2 = None \<and>
      (\<forall>i<2. altp2m_p2m st_two_views ! i \<noteq> None)"
    by (simp add: cfg4_def st_two_views_def less_Suc_eq numeral_2_eq_2)
  moreover have "xzalloc_ret ext_ok = Some 102 \<and> p2m_init_one_ret ext_ok = 0"
    by (simp add: ext_ok_def)
  ultimately have "\<exists>s'. altp2m_init_next_available cfg4 ext_ok st_two_views =
       Some (Inr (0, Some (of_nat 2), s')) \<and>
       altp2m_p2m s' = (altp2m_p2m st_two_views)[2 := Some 102]"
    using main [of st_two_views ext_ok] by blast
  then have b: "\<exists>s'. altp2m_init_next_available cfg4 ext_ok st_two_views =
       Some (Inr (0, Some 2, s')) \<and> altp2m_p2m s' = [Some 100, Some 101, Some 102, None]"
    by (simp add: st_two_views_def)
  from m a b show ?thesis by blast
qed

subsection \<open>Destroying a view\<close>

lemma destroy_by_id_cases:
  assumes k: "0 < k" "k < MAX_ALTP2M c"
  shows "altp2m_destroy_by_id c s k =
    (case altp2m_p2m s ! k of
       None \<Rightarrow> Inr (- EBUSY, s)
     | Some a \<Rightarrow>
         (case xenheap s a of
            None \<Rightarrow> Inl Bad_pointer
          | Some m \<Rightarrow>
              if active_vcpus m = 0 then
                Inr (0, s\<lparr>altp2m_p2m := (altp2m_p2m s)[k := None],
                          xenheap := (xenheap s)(a := None),
                          trace := trace s @ [Ev_p2m_teardown_one a, Ev_xfree a,
                                              Ev_slot_write k None]\<rparr>)
              else Inr (- EBUSY, s)))"
  using k
  by (simp add: altp2m_destroy_by_id_def atomic_read_def p2m_teardown_one_def xfree_def
      slot_write_def split: option.splits)

text \<open>
  C2. For an index \<open>k\<close> with \<open>0 < k < MAX_ALTP2M\<close>, \<open>altp2m_destroy_by_id\<close> returns 0
  exactly when slot \<open>k\<close> holds a view whose counter is zero. Whenever it returns another
  value, that value is \<open>-EBUSY\<close> and the state, with the table and every view, is as it
  was. In a guest satisfying I2 it does not return 0 while a virtual CPU has
  \<open>ap2m_idx = k\<close>.
\<close>

theorem destroy_succeeds_iff:
  assumes k: "0 < k" "k < MAX_ALTP2M c"
  shows "((\<exists>s'. altp2m_destroy_by_id c s k = Inr (0, s')) =
       (\<exists>a m. altp2m_p2m s ! k = Some a \<and> xenheap s a = Some m \<and> active_vcpus m = 0)) \<and>
    (\<forall>rc s'. altp2m_destroy_by_id c s k = Inr (rc, s') \<and> rc \<noteq> 0 \<longrightarrow>
       rc = - EBUSY \<and> s' = s) \<and>
    (I2 c s \<and> (\<exists>v\<in>set (vcpu s). ap2m_idx v = k) \<longrightarrow>
       (\<forall>s'. altp2m_destroy_by_id c s k \<noteq> Inr (0, s')))"
proof (intro conjI allI impI)
  note cases = destroy_by_id_cases [OF k, of s]
  show iff: "(\<exists>s'. altp2m_destroy_by_id c s k = Inr (0, s')) =
       (\<exists>a m. altp2m_p2m s ! k = Some a \<and> xenheap s a = Some m \<and> active_vcpus m = 0)"
    unfolding cases by (auto simp: EBUSY_def split: option.splits)
  {
    fix rc s' assume "altp2m_destroy_by_id c s k = Inr (rc, s') \<and> rc \<noteq> 0"
    then show "rc = - EBUSY" "s' = s"
      unfolding cases by (auto split: option.splits if_splits)
  }
  {
    fix s' assume h: "I2 c s \<and> (\<exists>v\<in>set (vcpu s). ap2m_idx v = k)"
    then have pos: "0 < bound_to s k"
      by (auto simp: bound_to_def filter_empty_conv)
    show "altp2m_destroy_by_id c s k \<noteq> Inr (0, s')"
    proof
      assume "altp2m_destroy_by_id c s k = Inr (0, s')"
      with iff obtain a m where
        am: "altp2m_p2m s ! k = Some a" "xenheap s a = Some m" "active_vcpus m = 0" by blast
      with h k have "sint (active_vcpus m) = int (bound_to s k)"
        unfolding I2_def by (fastforce split: option.splits)
      with am(3) pos show False by simp
    qed
  }
qed

lemma I2_switched: "I2 cfg4 st_switched"
  by (simp add: I2_def cfg4_def st_switched_def view_def bound_to_def all_less_4)

theorem destroy_succeeds_iff_witness:
  "(0::nat) < 1 \<and> 1 < MAX_ALTP2M cfg4
   \<and> (\<exists>s'. altp2m_destroy_by_id cfg4 st_two_views 1 = Inr (0, s'))
   \<and> I2 cfg4 st_switched
   \<and> altp2m_destroy_by_id cfg4 st_switched 1 \<noteq> Inr (0, st_switched)
   \<and> altp2m_destroy_by_id cfg4 st_switched 1 = Inr (- EBUSY, st_switched)"
proof -
  have k: "(0::nat) < 1" "1 < MAX_ALTP2M cfg4" by (simp_all add: cfg4_def)
  have "\<exists>a m. altp2m_p2m st_two_views ! 1 = Some a \<and> xenheap st_two_views a = Some m
      \<and> active_vcpus m = 0"
    by (simp add: st_two_views_def view_def)
  with destroy_succeeds_iff [OF k, of st_two_views]
  have a: "\<exists>s'. altp2m_destroy_by_id cfg4 st_two_views 1 = Inr (0, s')" by blast
  have "\<exists>v\<in>set (vcpu st_switched). ap2m_idx v = 1" by (simp add: st_switched_def)
  with destroy_succeeds_iff [OF k, of st_switched] I2_switched
  have b: "altp2m_destroy_by_id cfg4 st_switched 1 \<noteq> Inr (0, st_switched)" by blast
  have c: "altp2m_destroy_by_id cfg4 st_switched 1 = Inr (- EBUSY, st_switched)"
    by (simp add: altp2m_destroy_by_id_def atomic_read_def cfg4_def st_switched_def view_def)
  from k a b c I2_switched show ?thesis by blast
qed

subsection \<open>Destroying a view: rejected indices\<close>

text \<open>
  C3 (as amended). \<open>altp2m_destroy_by_id\<close> rejects index 0 and every index at or beyond
  \<open>MAX_ALTP2M\<close> with the value its \<open>rc\<close> starts with, \<open>-EBUSY\<close>, and leaves the state as
  it was.
\<close>

theorem destroy_rejected_index_is_busy:
  "idx = 0 \<or> MAX_ALTP2M c \<le> idx \<Longrightarrow> altp2m_destroy_by_id c s idx = Inr (- EBUSY, s)"
  by (simp add: altp2m_destroy_by_id_def)

theorem destroy_rejected_index_is_busy_witness:
  "altp2m_destroy_by_id cfg4 st_two_views 0 = Inr (- EBUSY, st_two_views)
   \<and> altp2m_destroy_by_id cfg4 st_two_views 4 = Inr (- EBUSY, st_two_views)"
  using destroy_rejected_index_is_busy [of 0 cfg4 st_two_views]
    destroy_rejected_index_is_busy [of 4 cfg4 st_two_views]
  by (simp add: cfg4_def)

text \<open>
  C3 as stated fails: destroying index 0 does not give \<open>-EINVAL\<close> (InvalidArgument).
\<close>

theorem destroy_index_zero_not_einval:
  "altp2m_destroy_by_id cfg4 st_two_views 0 \<noteq> Inr (- EINVAL, st_two_views)"
  by (simp add: altp2m_destroy_by_id_def EBUSY_def EINVAL_def)

subsection \<open>Switching to an empty slot\<close>

text \<open>
  C4 (as amended). \<open>altp2m_switch_domain_altp2m_by_id\<close> on an index below \<open>MAX_ALTP2M\<close>
  whose slot is empty returns \<open>-EINVAL\<close>, the value it also returns for an index out of
  range, and the state, with every binding and every counter, is as it was.
\<close>

theorem switch_empty_slot_is_einval:
  "idx < MAX_ALTP2M c \<Longrightarrow> altp2m_p2m s ! idx = None \<Longrightarrow>
   altp2m_switch_domain_altp2m_by_id c s idx = Inr (- EINVAL, s)"
  by (simp add: altp2m_switch_domain_altp2m_by_id_def)

theorem switch_empty_slot_is_einval_witness:
  "altp2m_switch_domain_altp2m_by_id cfg4 st_two_views 2 = Inr (- EINVAL, st_two_views)"
proof -
  have "(2::nat) < MAX_ALTP2M cfg4" by (simp add: cfg4_def)
  moreover have "altp2m_p2m st_two_views ! 2 = None" by (simp add: st_two_views_def)
  ultimately show ?thesis by (rule switch_empty_slot_is_einval)
qed

text \<open>C4 as stated fails: the value returned is not \<open>-ENOENT\<close> (NotFound).\<close>

theorem switch_empty_slot_not_enoent:
  "altp2m_switch_domain_altp2m_by_id cfg4 st_two_views 2 \<noteq> Inr (- ENOENT, st_two_views)"
  by (simp add: altp2m_switch_domain_altp2m_by_id_def cfg4_def st_two_views_def
      EINVAL_def ENOENT_def)

subsection \<open>Flushing and tearing down the table\<close>

lemma flush_slots_Cons_Some:
  assumes "altp2m_p2m s ! i = Some a"
  shows "flush_slots (i # js) s =
    (case xenheap s a of
       None \<Rightarrow> Inl Bad_pointer
     | Some m \<Rightarrow>
         if active_vcpus m \<noteq> 0 then Inl Assert_failed
         else flush_slots js
           (s\<lparr>altp2m_p2m := (altp2m_p2m s)[i := None],
              xenheap := (xenheap s)(a := None),
              trace := trace s @ [Ev_p2m_teardown_one a, Ev_xfree a, Ev_slot_write i None]\<rparr>))"
proof (cases "xenheap s a")
  case None
  with assms show ?thesis by (simp add: atomic_read_def)
next
  case (Some m)
  have "slot_write i None
      (s\<lparr>xenheap := (xenheap s)(a \<mapsto> m\<lparr>p2m_life := Torn_down\<rparr>),
          trace := trace s @ [Ev_p2m_teardown_one a]\<rparr>
        \<lparr>xenheap := (xenheap s)(a := None),
          trace := trace s @ [Ev_p2m_teardown_one a, Ev_xfree a]\<rparr>)
    = s\<lparr>altp2m_p2m := (altp2m_p2m s)[i := None],
        xenheap := (xenheap s)(a := None),
        trace := trace s @ [Ev_p2m_teardown_one a, Ev_xfree a, Ev_slot_write i None]\<rparr>"
    by (simp add: slot_write_def)
  with assms Some show ?thesis
    by (simp add: atomic_read_def p2m_teardown_one_def xfree_def)
qed

text \<open>What the loop of \<open>altp2m_flush\<close> has done when it returns.\<close>

lemma flush_slots_result:
  "flush_slots js s = Inr s' \<Longrightarrow> distinct js \<Longrightarrow>
   length (altp2m_p2m s') = length (altp2m_p2m s) \<and>
   (\<forall>i<length (altp2m_p2m s).
      altp2m_p2m s' ! i = (if i \<in> set js then None else altp2m_p2m s ! i)) \<and>
   (\<forall>i\<in>set js. \<forall>a. altp2m_p2m s ! i = Some a \<longrightarrow>
      (\<exists>m. xenheap s a = Some m \<and> active_vcpus m = 0) \<and> xenheap s' a = None) \<and>
   (\<forall>b. xenheap s' b = None \<or> xenheap s' b = xenheap s b) \<and>
   trace s' = trace s @ concat (map (\<lambda>i. case altp2m_p2m s ! i of None \<Rightarrow> []
      | Some a \<Rightarrow> [Ev_p2m_teardown_one a, Ev_xfree a, Ev_slot_write i None]) js) \<and>
   altp2m_active s' = altp2m_active s \<and> vcpu s' = vcpu s"
proof (induction js arbitrary: s)
  case Nil
  then show ?case by simp
next
  case (Cons i js)
  from Cons.prems(2) have d: "distinct js" "i \<notin> set js" by simp_all
  show ?case
  proof (cases "altp2m_p2m s ! i")
    case None
    with Cons.prems(1) have "flush_slots js s = Inr s'" by simp
    from Cons.IH [OF this d(1)] None d(2) show ?thesis by auto
  next
    case (Some a)
    define s3 where "s3 = s\<lparr>altp2m_p2m := (altp2m_p2m s)[i := None],
        xenheap := (xenheap s)(a := None),
        trace := trace s @ [Ev_p2m_teardown_one a, Ev_xfree a, Ev_slot_write i None]\<rparr>"
    from Cons.prems(1) obtain m where m: "xenheap s a = Some m" "active_vcpus m = 0"
      and run: "flush_slots js s3 = Inr s'"
      unfolding flush_slots_Cons_Some [OF Some] s3_def
      by (auto split: option.splits if_splits)
    note IH = Cons.IH [OF run d(1)]
    have same: "altp2m_p2m s3 ! j = altp2m_p2m s ! j" if "j \<in> set js" for j
    proof -
      from that d(2) have "i \<noteq> j" by auto
      then show ?thesis by (simp add: s3_def)
    qed
    have h3: "xenheap s3 b = (if b = a then None else xenheap s b)" for b
      by (simp add: s3_def)
    have 1: "length (altp2m_p2m s') = length (altp2m_p2m s)"
      using IH by (simp add: s3_def)
    have 2: "altp2m_p2m s' ! j = (if j \<in> set (i # js) then None else altp2m_p2m s ! j)"
      if "j < length (altp2m_p2m s)" for j
      using IH that by (auto simp: s3_def nth_list_update)
    have 4: "xenheap s' b = None \<or> xenheap s' b = xenheap s b" for b
      using IH h3 [of b] by (metis (full_types))
    have 3: "(\<exists>m. xenheap s b = Some m \<and> active_vcpus m = 0) \<and> xenheap s' b = None"
      if "j \<in> set (i # js)" "altp2m_p2m s ! j = Some b" for j b
    proof (cases "j = i")
      case True
      with that Some have "b = a" by simp
      moreover from IH h3 [of a] have "xenheap s' a = None" by (metis (full_types))
      ultimately show ?thesis using m by simp
    next
      case False
      with that have j: "j \<in> set js" by simp
      with that same have "altp2m_p2m s3 ! j = Some b" by simp
      with IH j have "(\<exists>m. xenheap s3 b = Some m \<and> active_vcpus m = 0) \<and> xenheap s' b = None"
        by blast
      then show ?thesis using h3 [of b] by (auto split: if_splits)
    qed
    define ev where "ev t j = (case t ! j of None \<Rightarrow> []
        | Some a \<Rightarrow> [Ev_p2m_teardown_one a, Ev_xfree a, Ev_slot_write j None])"
      for t :: "addr option list" and j
    have evs: "map (ev (altp2m_p2m s3)) js = map (ev (altp2m_p2m s)) js"
      by (rule map_cong [OF refl]) (simp add: ev_def same)
    from IH have t1: "trace s' = trace s3 @ concat (map (ev (altp2m_p2m s3)) js)"
      unfolding ev_def by blast
    have t3: "trace s3 = trace s @ ev (altp2m_p2m s) i"
      using Some by (simp add: s3_def ev_def)
    have "trace s' = trace s @ concat (map (ev (altp2m_p2m s)) (i # js))"
      unfolding t1 evs t3 by simp
    then have 5: "trace s' = trace s @ concat (map (\<lambda>i. case altp2m_p2m s ! i of
        None \<Rightarrow> [] | Some a \<Rightarrow> [Ev_p2m_teardown_one a, Ev_xfree a, Ev_slot_write i None])
        (i # js))"
      unfolding ev_def .
    have 6: "altp2m_active s' = altp2m_active s \<and> vcpu s' = vcpu s"
      using IH by (simp add: s3_def)
    from 1 2 3 4 5 6 show ?thesis by blast
  qed
qed

lemma flush_slots_total:
  "distinct js \<Longrightarrow>
   \<forall>i\<in>set js. \<forall>a. altp2m_p2m s ! i = Some a \<longrightarrow>
      (\<exists>m. xenheap s a = Some m \<and> active_vcpus m = 0) \<Longrightarrow>
   \<forall>i\<in>set js. \<forall>j\<in>set js. \<forall>a. altp2m_p2m s ! i = Some a \<and> altp2m_p2m s ! j = Some a
      \<longrightarrow> i = j \<Longrightarrow>
   \<exists>s'. flush_slots js s = Inr s'"
proof (induction js arbitrary: s)
  case Nil
  then show ?case by simp
next
  case (Cons i js)
  from Cons.prems(1) have d: "distinct js" "i \<notin> set js" by simp_all
  show ?case
  proof (cases "altp2m_p2m s ! i")
    case None
    have "\<exists>s'. flush_slots js s = Inr s'"
      using Cons.prems(2,3) by (intro Cons.IH [OF d(1)]) simp_all
    with None show ?thesis by simp
  next
    case (Some a)
    define s3 where "s3 = s\<lparr>altp2m_p2m := (altp2m_p2m s)[i := None],
        xenheap := (xenheap s)(a := None),
        trace := trace s @ [Ev_p2m_teardown_one a, Ev_xfree a, Ev_slot_write i None]\<rparr>"
    from Cons.prems(2) Some obtain m where m: "xenheap s a = Some m" "active_vcpus m = 0"
      by auto
    have same: "altp2m_p2m s3 ! j = altp2m_p2m s ! j" if "j \<in> set js" for j
    proof -
      from that d(2) have "i \<noteq> j" by auto
      then show ?thesis by (simp add: s3_def)
    qed
    have other: "b \<noteq> a" if "j \<in> set js" "altp2m_p2m s ! j = Some b" for j b
      using that Some d(2) Cons.prems(3) by auto
    have "\<exists>s'. flush_slots js s3 = Inr s'"
    proof (rule Cons.IH [OF d(1)])
      show "\<forall>j\<in>set js. \<forall>b. altp2m_p2m s3 ! j = Some b \<longrightarrow>
          (\<exists>m. xenheap s3 b = Some m \<and> active_vcpus m = 0)"
        using Cons.prems(2) same other by (auto simp: s3_def)
      show "\<forall>j\<in>set js. \<forall>l\<in>set js. \<forall>b.
          altp2m_p2m s3 ! j = Some b \<and> altp2m_p2m s3 ! l = Some b \<longrightarrow> j = l"
        using Cons.prems(3) same by auto
    qed
    with m show ?thesis
      unfolding flush_slots_Cons_Some [OF Some] s3_def by simp
  qed
qed

lemma teardown_slots_Cons_Some:
  assumes "altp2m_p2m s ! i = Some a"
  shows "teardown_slots (i # js) s =
    (case xenheap s a of
       None \<Rightarrow> Inl Bad_pointer
     | Some m \<Rightarrow>
         teardown_slots js
           (s\<lparr>xenheap := (xenheap s)(a := None),
              trace := trace s @ [Ev_p2m_teardown_one a, Ev_xfree a]\<rparr>))"
  using assms by (simp add: p2m_teardown_one_def xfree_def split: option.splits)

text \<open>What the loop of \<open>altp2m_teardown\<close> has done when it returns.\<close>

lemma teardown_slots_result:
  "teardown_slots js s = Inr s' \<Longrightarrow>
   altp2m_p2m s' = altp2m_p2m s \<and>
   (\<forall>i\<in>set js. \<forall>a. altp2m_p2m s ! i = Some a \<longrightarrow> xenheap s' a = None) \<and>
   (\<forall>b. xenheap s' b = None \<or> xenheap s' b = xenheap s b) \<and>
   trace s' = trace s @ concat (map (\<lambda>i. case altp2m_p2m s ! i of None \<Rightarrow> []
      | Some a \<Rightarrow> [Ev_p2m_teardown_one a, Ev_xfree a]) js)"
proof (induction js arbitrary: s)
  case Nil
  then show ?case by simp
next
  case (Cons i js)
  show ?case
  proof (cases "altp2m_p2m s ! i")
    case None
    with Cons.prems have "teardown_slots js s = Inr s'" by simp
    from Cons.IH [OF this] None show ?thesis by auto
  next
    case (Some a)
    define s2 where "s2 = s\<lparr>xenheap := (xenheap s)(a := None),
        trace := trace s @ [Ev_p2m_teardown_one a, Ev_xfree a]\<rparr>"
    from Cons.prems have run: "teardown_slots js s2 = Inr s'"
      unfolding teardown_slots_Cons_Some [OF Some] s2_def by (auto split: option.splits)
    note IH = Cons.IH [OF run]
    have tbl: "altp2m_p2m s2 = altp2m_p2m s" by (simp add: s2_def)
    have h2: "xenheap s2 b = (if b = a then None else xenheap s b)" for b
      by (simp add: s2_def)
    have 1: "altp2m_p2m s' = altp2m_p2m s" using IH tbl by simp
    have 3: "xenheap s' b = None \<or> xenheap s' b = xenheap s b" for b
      using IH h2 [of b] by (metis (full_types))
    have 2: "xenheap s' b = None" if "j \<in> set (i # js)" "altp2m_p2m s ! j = Some b" for j b
    proof (cases "j = i")
      case True
      with that Some have "b = a" by simp
      moreover from IH h2 [of a] have "xenheap s' a = None" by (metis (full_types))
      ultimately show ?thesis by simp
    next
      case False
      with that IH tbl show ?thesis by simp
    qed
    from IH have "trace s' = trace s2 @ concat (map (\<lambda>i. case altp2m_p2m s ! i of None \<Rightarrow> []
      | Some a \<Rightarrow> [Ev_p2m_teardown_one a, Ev_xfree a]) js)"
      unfolding tbl by blast
    with Some have 4: "trace s' = trace s @ concat (map (\<lambda>i. case altp2m_p2m s ! i of
       None \<Rightarrow> [] | Some a \<Rightarrow> [Ev_p2m_teardown_one a, Ev_xfree a]) (i # js))"
      by (simp add: s2_def)
    from 1 2 3 4 show ?thesis by blast
  qed
qed

text \<open>
  C8. \<open>altp2m_flush\<close> asserts that the guest's alternate views are switched off: called
  while \<open>altp2m_active\<close> holds it stops at the assertion. When it returns, the views were
  switched off, every occupied slot pointed to a view whose counter was zero (the second
  assertion), every one of these views has been torn down and released, and every slot of
  the table, slot 0 included, is empty. It does return when the views are switched off, no
  two slots share a pointer and every occupied slot points to a view whose counter is zero.
\<close>

theorem flush_empties_table:
  assumes ok: "table_ok c s"
  shows "(altp2m_active s \<longrightarrow> altp2m_flush c s = Inl Assert_failed) \<and>
    (\<forall>s'. altp2m_flush c s = Inr s' \<longrightarrow>
       \<not> altp2m_active s \<and>
       (\<forall>i<MAX_ALTP2M c. \<forall>a. altp2m_p2m s ! i = Some a \<longrightarrow>
          (\<exists>m. xenheap s a = Some m \<and> active_vcpus m = 0) \<and>
          xenheap s' a = None \<and>
          Ev_p2m_teardown_one a \<in> set (trace s') \<and> Ev_xfree a \<in> set (trace s')) \<and>
       table_ok c s' \<and> (\<forall>i<MAX_ALTP2M c. altp2m_p2m s' ! i = None)) \<and>
    (\<not> altp2m_active s \<and> slots_distinct c s \<and>
     (\<forall>i<MAX_ALTP2M c. \<forall>a. altp2m_p2m s ! i = Some a \<longrightarrow>
        (\<exists>m. xenheap s a = Some m \<and> active_vcpus m = 0)) \<longrightarrow>
       (\<exists>s'. altp2m_flush c s = Inr s'))"
proof -
  have 1: "altp2m_flush c s = Inl Assert_failed" if "altp2m_active s"
    using that by (simp add: altp2m_flush_def)
  have 2: "\<not> altp2m_active s \<and>
       (\<forall>i<MAX_ALTP2M c. \<forall>a. altp2m_p2m s ! i = Some a \<longrightarrow>
          (\<exists>m. xenheap s a = Some m \<and> active_vcpus m = 0) \<and>
          xenheap s' a = None \<and>
          Ev_p2m_teardown_one a \<in> set (trace s') \<and> Ev_xfree a \<in> set (trace s')) \<and>
       table_ok c s' \<and> (\<forall>i<MAX_ALTP2M c. altp2m_p2m s' ! i = None)"
    if ret: "altp2m_flush c s = Inr s'" for s'
  proof -
    from ret have na: "\<not> altp2m_active s"
      and run: "flush_slots [0..<MAX_ALTP2M c] s = Inr s'"
      by (auto simp: altp2m_flush_def split: if_splits)
    from flush_slots_result [OF run] have
      len: "length (altp2m_p2m s') = length (altp2m_p2m s)"
      and tbl: "\<forall>i<length (altp2m_p2m s).
        altp2m_p2m s' ! i = (if i \<in> set [0..<MAX_ALTP2M c] then None else altp2m_p2m s ! i)"
      and heap: "\<forall>i\<in>set [0..<MAX_ALTP2M c]. \<forall>a. altp2m_p2m s ! i = Some a \<longrightarrow>
        (\<exists>m. xenheap s a = Some m \<and> active_vcpus m = 0) \<and> xenheap s' a = None"
      and tr: "trace s' = trace s @ concat (map (\<lambda>i. case altp2m_p2m s ! i of None \<Rightarrow> []
        | Some a \<Rightarrow> [Ev_p2m_teardown_one a, Ev_xfree a, Ev_slot_write i None])
        [0..<MAX_ALTP2M c])"
      by simp_all
    have ev: "Ev_p2m_teardown_one a \<in> set (trace s') \<and> Ev_xfree a \<in> set (trace s')"
      if "i < MAX_ALTP2M c" "altp2m_p2m s ! i = Some a" for i a
    proof -
      define f where "f j = (case altp2m_p2m s ! j of None \<Rightarrow> []
        | Some a \<Rightarrow> [Ev_p2m_teardown_one a, Ev_xfree a, Ev_slot_write j None])" for j
      from that have "i \<in> set [0..<MAX_ALTP2M c]" by simp
      then have "set (f i) \<subseteq> set (concat (map f [0..<MAX_ALTP2M c]))" by auto
      moreover have "f i = [Ev_p2m_teardown_one a, Ev_xfree a, Ev_slot_write i None]"
        using that by (simp add: f_def)
      moreover have "trace s' = trace s @ concat (map f [0..<MAX_ALTP2M c])"
        unfolding f_def by (rule tr)
      ultimately show ?thesis by auto
    qed
    from na len tbl heap ev ok show ?thesis
      by (simp add: table_ok_def)
  qed
  have 3: "\<exists>s'. altp2m_flush c s = Inr s'"
    if h: "\<not> altp2m_active s \<and> slots_distinct c s \<and>
     (\<forall>i<MAX_ALTP2M c. \<forall>a. altp2m_p2m s ! i = Some a \<longrightarrow>
        (\<exists>m. xenheap s a = Some m \<and> active_vcpus m = 0))"
  proof -
    have "\<exists>s'. flush_slots [0..<MAX_ALTP2M c] s = Inr s'"
    proof (rule flush_slots_total)
      show "distinct [0..<MAX_ALTP2M c]" by simp
      show "\<forall>i\<in>set [0..<MAX_ALTP2M c]. \<forall>a. altp2m_p2m s ! i = Some a \<longrightarrow>
          (\<exists>m. xenheap s a = Some m \<and> active_vcpus m = 0)"
        using h by simp
      show "\<forall>i\<in>set [0..<MAX_ALTP2M c]. \<forall>j\<in>set [0..<MAX_ALTP2M c]. \<forall>a.
          altp2m_p2m s ! i = Some a \<and> altp2m_p2m s ! j = Some a \<longrightarrow> i = j"
        using h by (auto dest: slots_distinctD)
    qed
    with h show ?thesis by (simp add: altp2m_flush_def)
  qed
  from 1 2 3 show ?thesis by blast
qed

lemma table_ok_inactive: "table_ok cfg4 st_inactive"
  by (simp add: table_ok_def cfg4_def st_inactive_def)

theorem flush_empties_table_witness:
  "table_ok cfg4 st_two_views \<and> altp2m_active st_two_views
   \<and> altp2m_flush cfg4 st_two_views = Inl Assert_failed
   \<and> table_ok cfg4 st_inactive \<and> \<not> altp2m_active st_inactive
   \<and> slots_distinct cfg4 st_inactive
   \<and> (\<exists>s'. altp2m_flush cfg4 st_inactive = Inr s' \<and>
         altp2m_p2m s' ! 0 = None \<and> altp2m_p2m s' ! 1 = None \<and>
         xenheap s' 100 = None \<and> xenheap s' 101 = None)"
proof -
  have t: "table_ok cfg4 st_two_views" by (simp add: table_ok_def cfg4_def st_two_views_def)
  have a: "altp2m_active st_two_views" by (simp add: st_two_views_def)
  from flush_empties_table [OF t] a
  have 1: "altp2m_flush cfg4 st_two_views = Inl Assert_failed" by blast
  have na: "\<not> altp2m_active st_inactive" by (simp add: st_inactive_def)
  have d: "slots_distinct cfg4 st_inactive"
    by (simp add: slots_distinct_def cfg4_def st_inactive_def all_less_4)
  have z: "\<forall>i<MAX_ALTP2M cfg4. \<forall>a. altp2m_p2m st_inactive ! i = Some a \<longrightarrow>
        (\<exists>m. xenheap st_inactive a = Some m \<and> active_vcpus m = 0)"
    by (simp add: cfg4_def st_inactive_def view_def all_less_4)
  note main = flush_empties_table [OF table_ok_inactive]
  from main na d z obtain s' where ret: "altp2m_flush cfg4 st_inactive = Inr s'" by blast
  with main have
    "\<forall>i<MAX_ALTP2M cfg4. \<forall>a. altp2m_p2m st_inactive ! i = Some a \<longrightarrow> xenheap s' a = None"
    "\<forall>i<MAX_ALTP2M cfg4. altp2m_p2m s' ! i = None"
    by blast+
  then have "altp2m_p2m s' ! 0 = None \<and> altp2m_p2m s' ! 1 = None \<and>
         xenheap s' 100 = None \<and> xenheap s' 101 = None"
    by (simp add: cfg4_def st_inactive_def all_less_4)
  with ret t a 1 table_ok_inactive na d show ?thesis by blast
qed

subsection \<open>The order of tear-down, release and table write\<close>

lemma upt_0_4: "[0..<4] = [0, 1, 2, 3::nat]"
  by code_simp

lemma destroy_two_views:
  "altp2m_destroy_by_id cfg4 st_two_views 1 = Inr (0, st_destroyed)"
  by (simp add: altp2m_destroy_by_id_def atomic_read_def p2m_teardown_one_def xfree_def
      slot_write_def cfg4_def st_two_views_def st_destroyed_def view_def fun_eq_iff)

lemma teardown_two_views: "altp2m_teardown cfg4 st_two_views = Inr st_torn_down"
  by (simp add: altp2m_teardown_def upt_0_4 p2m_teardown_one_def xfree_def
      cfg4_def st_two_views_def st_torn_down_def view_def fun_eq_iff)

lemma flush_inactive: "altp2m_flush cfg4 st_inactive = Inr st_flushed"
  by (simp add: altp2m_flush_def upt_0_4 atomic_read_def p2m_teardown_one_def xfree_def
      slot_write_def cfg4_def st_inactive_def st_flushed_def view_def fun_eq_iff)

lemma released_two_views:
  "bind (p2m_teardown_one 101 st_two_views) (xfree 101) = Inr st_released"
  by (simp add: p2m_teardown_one_def xfree_def st_two_views_def st_released_def view_def
      fun_eq_iff)

text \<open>
  C5 as stated fails. Destroying slot 1 of the guest tears the view down, releases it and
  only then clears the slot, which is not the order slot, tear-down, release: after the
  release and before the write, slot 1 holds the pointer to the released view. And after
  \<open>altp2m_teardown\<close> slot 0 still holds the pointer to a released view.
\<close>

theorem teardown_order_counterexample:
  "altp2m_destroy_by_id cfg4 st_two_views 1 = Inr (0, st_destroyed)
   \<and> trace st_two_views = []
   \<and> trace st_destroyed = [Ev_p2m_teardown_one 101, Ev_xfree 101, Ev_slot_write 1 None]
   \<and> trace st_destroyed \<noteq> [Ev_slot_write 1 None, Ev_p2m_teardown_one 101, Ev_xfree 101]
   \<and> bind (p2m_teardown_one 101 st_two_views) (xfree 101) = Inr st_released
   \<and> slot_write 1 None st_released = st_destroyed
   \<and> altp2m_p2m st_released ! 1 = Some 101 \<and> xenheap st_released 101 = None
   \<and> \<not> slots_sound cfg4 st_released
   \<and> altp2m_teardown cfg4 st_two_views = Inr st_torn_down
   \<and> altp2m_p2m st_torn_down ! 0 = Some 100 \<and> xenheap st_torn_down 100 = None
   \<and> \<not> slots_sound cfg4 st_torn_down"
  using destroy_two_views teardown_two_views released_two_views
  by (simp add: st_two_views_def st_destroyed_def st_torn_down_def st_released_def
      slot_write_def slots_sound_def cfg4_def all_less_4)

lemma destroy_success_index:
  "altp2m_destroy_by_id c s k = Inr (0, s') \<Longrightarrow> 0 < k \<and> k < MAX_ALTP2M c"
  by (auto simp: altp2m_destroy_by_id_def EBUSY_def split: if_splits)

text \<open>
  What \<open>altp2m_destroy_by_id\<close> and \<open>altp2m_flush\<close> leave behind when they return: no
  occupied slot refers to a view that was torn down or released.
\<close>

lemma destroy_keeps_sound:
  assumes ok: "table_ok c s" and dist: "slots_distinct c s" and snd: "slots_sound c s"
    and ret: "altp2m_destroy_by_id c s k = Inr (rc, s')"
  shows "slots_sound c s'"
proof (cases "rc = 0")
  case False
  with ret have "s' = s"
    by (auto simp: altp2m_destroy_by_id_def atomic_read_def bind_eq_Inr
        split: if_splits option.splits)
  with snd show ?thesis by simp
next
  case True
  with ret have ret0: "altp2m_destroy_by_id c s k = Inr (0, s')" by simp
  from destroy_success_index [OF ret0] have k: "0 < k" "k < MAX_ALTP2M c" by simp_all
  from ret0 obtain a where a: "altp2m_p2m s ! k = Some a"
    and s': "s' = s\<lparr>altp2m_p2m := (altp2m_p2m s)[k := None],
        xenheap := (xenheap s)(a := None),
        trace := trace s @ [Ev_p2m_teardown_one a, Ev_xfree a, Ev_slot_write k None]\<rparr>"
    unfolding destroy_by_id_cases [OF k]
    by (auto simp: EBUSY_def split: option.splits if_splits)
  from ok k have len: "k < length (altp2m_p2m s)" by (simp add: table_ok_def)
  show ?thesis
    unfolding slots_sound_def
  proof (intro allI impI)
    fix i assume i: "i < MAX_ALTP2M c"
    show "case altp2m_p2m s' ! i of None \<Rightarrow> True
      | Some a \<Rightarrow> (case xenheap s' a of None \<Rightarrow> False | Some m \<Rightarrow> p2m_life m \<noteq> Torn_down)"
    proof (cases "i = k")
      case True
      with len show ?thesis by (simp add: s')
    next
      case False
      then have tbl: "altp2m_p2m s' ! i = altp2m_p2m s ! i" by (simp add: s')
      show ?thesis
      proof (cases "altp2m_p2m s ! i")
        case None
        with tbl show ?thesis by simp
      next
        case (Some b)
        with a i k False dist have "b \<noteq> a" by (auto dest: slots_distinctD)
        then have "xenheap s' b = xenheap s b" by (simp add: s')
        moreover from snd i Some have "case xenheap s b of None \<Rightarrow> False
            | Some m \<Rightarrow> p2m_life m \<noteq> Torn_down"
          unfolding slots_sound_def by (fastforce split: option.splits)
        ultimately show ?thesis using tbl Some by simp
      qed
    qed
  qed
qed

lemma flush_leaves_sound:
  assumes ok: "table_ok c s" and ret: "altp2m_flush c s = Inr s'"
  shows "slots_sound c s'"
proof -
  from ret have "flush_slots [0..<MAX_ALTP2M c] s = Inr s'"
    by (auto simp: altp2m_flush_def split: if_splits)
  from flush_slots_result [OF this] ok have "\<forall>i<MAX_ALTP2M c. altp2m_p2m s' ! i = None"
    by (simp add: table_ok_def)
  then show ?thesis by (simp add: slots_sound_def)
qed

text \<open>
  C5 (as amended). Each path that removes a view tears its internal state down first and
  releases its memory second: this is all \<open>altp2m_teardown\<close> records for a view.
  \<open>altp2m_destroy_by_id\<close> and \<open>altp2m_flush\<close> write NULL to the slot third, after the
  release; the two loops go through the slots in index order. When
  \<open>altp2m_destroy_by_id\<close> returns, with any value, from a guest in which every view is owned
  by one slot and no occupied slot refers to a torn-down or released view, no occupied slot
  of the guest refers to one; when \<open>altp2m_flush\<close> returns, none does either.
\<close>

theorem teardown_paths_order:
  "(\<forall>s'. altp2m_destroy_by_id c s k = Inr (0, s') \<longrightarrow>
      (\<exists>a. altp2m_p2m s ! k = Some a \<and>
         trace s' = trace s @ [Ev_p2m_teardown_one a, Ev_xfree a, Ev_slot_write k None])) \<and>
   (\<forall>s'. altp2m_flush c s = Inr s' \<longrightarrow>
      trace s' = trace s @ concat (map (\<lambda>i. case altp2m_p2m s ! i of None \<Rightarrow> []
        | Some a \<Rightarrow> [Ev_p2m_teardown_one a, Ev_xfree a, Ev_slot_write i None])
        [0..<MAX_ALTP2M c])) \<and>
   (\<forall>s'. altp2m_teardown c s = Inr s' \<longrightarrow>
      trace s' = trace s @ concat (map (\<lambda>i. case altp2m_p2m s ! i of None \<Rightarrow> []
        | Some a \<Rightarrow> [Ev_p2m_teardown_one a, Ev_xfree a]) [0..<MAX_ALTP2M c])) \<and>
   (table_ok c s \<and> slots_distinct c s \<and> slots_sound c s \<longrightarrow>
      (\<forall>rc s'. altp2m_destroy_by_id c s k = Inr (rc, s') \<longrightarrow> slots_sound c s')) \<and>
   (table_ok c s \<longrightarrow> (\<forall>s'. altp2m_flush c s = Inr s' \<longrightarrow> slots_sound c s'))"
proof -
  have 1: "\<exists>a. altp2m_p2m s ! k = Some a \<and>
         trace s' = trace s @ [Ev_p2m_teardown_one a, Ev_xfree a, Ev_slot_write k None]"
    if ret: "altp2m_destroy_by_id c s k = Inr (0, s')" for s'
  proof -
    from destroy_success_index [OF ret] have k: "0 < k" "k < MAX_ALTP2M c" by simp_all
    from ret show ?thesis
      unfolding destroy_by_id_cases [OF k]
      by (auto simp: EBUSY_def split: option.splits if_splits)
  qed
  have 2: "trace s' = trace s @ concat (map (\<lambda>i. case altp2m_p2m s ! i of None \<Rightarrow> []
        | Some a \<Rightarrow> [Ev_p2m_teardown_one a, Ev_xfree a, Ev_slot_write i None])
        [0..<MAX_ALTP2M c])"
    if ret: "altp2m_flush c s = Inr s'" for s'
  proof -
    from ret have "flush_slots [0..<MAX_ALTP2M c] s = Inr s'"
      by (auto simp: altp2m_flush_def split: if_splits)
    from flush_slots_result [OF this] show ?thesis by simp
  qed
  have 3: "trace s' = trace s @ concat (map (\<lambda>i. case altp2m_p2m s ! i of None \<Rightarrow> []
        | Some a \<Rightarrow> [Ev_p2m_teardown_one a, Ev_xfree a]) [0..<MAX_ALTP2M c])"
    if ret: "altp2m_teardown c s = Inr s'" for s'
  proof -
    from ret have "teardown_slots [0..<MAX_ALTP2M c] s = Inr s'"
      by (simp add: altp2m_teardown_def)
    from teardown_slots_result [OF this] show ?thesis by simp
  qed
  have 4: "slots_sound c s'"
    if "table_ok c s \<and> slots_distinct c s \<and> slots_sound c s"
      "altp2m_destroy_by_id c s k = Inr (rc, s')" for rc s'
    using that by (blast intro: destroy_keeps_sound)
  have 5: "slots_sound c s'" if "table_ok c s" "altp2m_flush c s = Inr s'" for s'
    using that by (rule flush_leaves_sound)
  from 1 2 3 4 5 show ?thesis by blast
qed

theorem teardown_paths_order_witness:
  "altp2m_destroy_by_id cfg4 st_two_views 1 = Inr (0, st_destroyed)
   \<and> (\<exists>a. altp2m_p2m st_two_views ! 1 = Some a \<and>
         trace st_destroyed =
           trace st_two_views @ [Ev_p2m_teardown_one a, Ev_xfree a, Ev_slot_write 1 None])
   \<and> altp2m_flush cfg4 st_inactive = Inr st_flushed
   \<and> trace st_flushed =
        [Ev_p2m_teardown_one 100, Ev_xfree 100, Ev_slot_write 0 None,
         Ev_p2m_teardown_one 101, Ev_xfree 101, Ev_slot_write 1 None]
   \<and> altp2m_teardown cfg4 st_two_views = Inr st_torn_down
   \<and> trace st_torn_down =
        [Ev_p2m_teardown_one 100, Ev_xfree 100, Ev_p2m_teardown_one 101, Ev_xfree 101]
   \<and> table_ok cfg4 st_two_views \<and> slots_distinct cfg4 st_two_views
   \<and> slots_sound cfg4 st_two_views \<and> slots_sound cfg4 st_destroyed
   \<and> table_ok cfg4 st_inactive \<and> slots_sound cfg4 st_flushed"
proof -
  note main = teardown_paths_order [of cfg4 _ 1]
  from main [of st_two_views] destroy_two_views
  have 1: "\<exists>a. altp2m_p2m st_two_views ! 1 = Some a \<and>
         trace st_destroyed =
           trace st_two_views @ [Ev_p2m_teardown_one a, Ev_xfree a, Ev_slot_write 1 None]"
    by blast
  from main [of st_inactive] flush_inactive
  have "trace st_flushed = trace st_inactive @ concat (map (\<lambda>i.
        case altp2m_p2m st_inactive ! i of None \<Rightarrow> []
        | Some a \<Rightarrow> [Ev_p2m_teardown_one a, Ev_xfree a, Ev_slot_write i None])
        [0..<MAX_ALTP2M cfg4])"
    by blast
  then have 2: "trace st_flushed =
        [Ev_p2m_teardown_one 100, Ev_xfree 100, Ev_slot_write 0 None,
         Ev_p2m_teardown_one 101, Ev_xfree 101, Ev_slot_write 1 None]"
    by (simp add: cfg4_def st_inactive_def upt_0_4)
  from main [of st_two_views] teardown_two_views
  have "trace st_torn_down = trace st_two_views @ concat (map (\<lambda>i.
        case altp2m_p2m st_two_views ! i of None \<Rightarrow> []
        | Some a \<Rightarrow> [Ev_p2m_teardown_one a, Ev_xfree a]) [0..<MAX_ALTP2M cfg4])"
    by blast
  then have 3: "trace st_torn_down =
        [Ev_p2m_teardown_one 100, Ev_xfree 100, Ev_p2m_teardown_one 101, Ev_xfree 101]"
    by (simp add: cfg4_def st_two_views_def upt_0_4)
  have t: "table_ok cfg4 st_two_views" by (simp add: table_ok_def cfg4_def st_two_views_def)
  have d: "slots_distinct cfg4 st_two_views"
    by (simp add: slots_distinct_def cfg4_def st_two_views_def all_less_4)
  have s: "slots_sound cfg4 st_two_views"
    by (simp add: slots_sound_def cfg4_def st_two_views_def view_def all_less_4)
  from main [of st_two_views] t d s destroy_two_views
  have 4: "slots_sound cfg4 st_destroyed" by blast
  from main [of st_inactive] table_ok_inactive flush_inactive
  have 5: "slots_sound cfg4 st_flushed" by blast
  from 1 2 3 4 5 t d s table_ok_inactive destroy_two_views flush_inactive teardown_two_views
  show ?thesis by blast
qed

end
